theory Spec2Isabelle
  imports Complex_Main "HOL-Library.Product_Lexorder"
begin

text \<open>
  A model of the two pipelines of the repository, \<^verbatim>\<open>AudioEmbeddingSystem\<close>
  (\<^verbatim>\<open>exemplo_audio_embeddings.py\<close>) and \<^verbatim>\<open>SistemaRAG\<close>
  (\<^verbatim>\<open>exemplo_rag_sistema.py\<close>): the text chunker, the corpus store with its
  metadata records, the build of the index and the search, with the properties of the
  specification proved or refuted on them.
\<close>

section \<open>Text chunker (\<^verbatim>\<open>SistemaRAG._dividir_em_chunks\<close>)\<close>

text \<open>
  Python strings are sequences of code points; here a \<^typ>\<open>string\<close> is read as a
  sequence of code points below 256, one \<^typ>\<open>char\<close> each, so that \<^const>\<open>length\<close>
  is Python's \<^verbatim>\<open>len\<close>.

  \<^verbatim>\<open>re.split(r'[.!?]+', texto)\<close> cuts the text at every maximal run of the three
  sentence terminators and keeps the pieces between the runs, the empty ones included.
\<close>

definition is_delim :: "char \<Rightarrow> bool" where
  "is_delim c = (c = CHR ''.'' \<or> c = CHR ''!'' \<or> c = CHR ''?'')"

text \<open>The characters \<^verbatim>\<open>str.strip()\<close> removes (those with \<^verbatim>\<open>str.isspace()\<close>) below 256.\<close>

definition is_space :: "char \<Rightarrow> bool" where
  "is_space c = (c \<in> set [CHR 0x09, CHR 0x0A, CHR 0x0B, CHR 0x0C, CHR 0x0D,
                           CHR 0x1C, CHR 0x1D, CHR 0x1E, CHR 0x1F, CHR '' '',
                           CHR 0x85, CHR 0xA0])"

definition strip :: "string \<Rightarrow> string" where
  "strip s = dropWhile is_space (rev (dropWhile is_space (rev s)))"

function re_split :: "string \<Rightarrow> string list" where
  "re_split s =
     (case dropWhile (\<lambda>c. \<not> is_delim c) s of
        [] \<Rightarrow> [s]
      | d # r \<Rightarrow> takeWhile (\<lambda>c. \<not> is_delim c) s # re_split (dropWhile is_delim r))"
  by pat_completeness auto
termination
proof (relation "measure length")
  fix s :: string and d r
  assume h: "dropWhile (\<lambda>c. \<not> is_delim c) s = d # r"
  have "length (dropWhile is_delim r) \<le> length r"
    by (rule length_dropWhile_le)
  moreover have "length (d # r) \<le> length s"
    using length_dropWhile_le [of "\<lambda>c. \<not> is_delim c" s] h by simp
  ultimately show "(dropWhile is_delim r, s) \<in> measure length"
    by simp
qed simp

declare re_split.simps [simp del]

text \<open>
  The \<^verbatim>\<open>for sentenca in sentencas\<close> loop, with its two variables \<^verbatim>\<open>chunks\<close> and
  \<^verbatim>\<open>chunk_atual\<close>; the first branch is the \<^verbatim>\<open>continue\<close>.
\<close>

fun chunk_loop :: "int \<Rightarrow> string list \<Rightarrow> string list \<Rightarrow> string \<Rightarrow> string list \<times> string" where
  "chunk_loop tamanho_chunk [] chunks chunk_atual = (chunks, chunk_atual)"
| "chunk_loop tamanho_chunk (sentenca # rest) chunks chunk_atual =
     (let s = strip sentenca in
      if s = [] then chunk_loop tamanho_chunk rest chunks chunk_atual
      else if int (length (chunk_atual @ s)) < tamanho_chunk
        then chunk_loop tamanho_chunk rest chunks (chunk_atual @ s @ ''. '')
      else chunk_loop tamanho_chunk rest
             (if chunk_atual \<noteq> [] then chunks @ [strip chunk_atual] else chunks)
             (s @ ''. ''))"

definition dividir_em_chunks :: "string \<Rightarrow> int \<Rightarrow> string list" where
  "dividir_em_chunks texto tamanho_chunk =
     (case chunk_loop tamanho_chunk (re_split texto) [] [] of
        (chunks, chunk_atual) \<Rightarrow>
          if chunk_atual \<noteq> [] then chunks @ [strip chunk_atual] else chunks)"

text \<open>
  The sentences the loop actually consumes: the pieces of the split, stripped, the empty
  ones skipped.
\<close>

definition sentencas :: "string \<Rightarrow> string list" where
  "sentencas texto = filter (\<lambda>s. s \<noteq> []) (map strip (re_split texto))"

text \<open>
  Reading the chunks back: \<open>juntar_chunks\<close> concatenates them, giving each the blank that
  \<^verbatim>\<open>strip\<close> took from its end; \<open>normalizar\<close> writes a list of sentences the way the
  buffer does, each followed by a full stop and a blank.
\<close>

definition juntar_chunks :: "string list \<Rightarrow> string" where
  "juntar_chunks cs = concat (map (\<lambda>c. c @ '' '') cs)"

definition normalizar :: "string list \<Rightarrow> string" where
  "normalizar ss = concat (map (\<lambda>s. s @ ''. '') ss)"

text \<open>Invariants of the buffer \<^verbatim>\<open>chunk_atual\<close>, used in the proofs below.\<close>

definition buffer_ok :: "string \<Rightarrow> bool" where
  "buffer_ok b = (b = [] \<or> (\<exists>x. b = x @ ''. '' \<and> x \<noteq> [] \<and> \<not> is_space (hd x)))"

definition limpa :: "string \<Rightarrow> bool" where
  "limpa s = (s \<noteq> [] \<and> \<not> is_space (hd s) \<and> \<not> is_space (last s) \<and>
              (\<forall>c \<in> set s. \<not> is_delim c))"

definition chunk_ok :: "int \<Rightarrow> string set \<Rightarrow> string \<Rightarrow> bool" where
  "chunk_ok T S c =
     (int (length c) \<le> T \<or> (\<exists>s \<in> S. c = s @ ''.'' \<and> T \<le> int (length s)))"

definition size_ok :: "int \<Rightarrow> string set \<Rightarrow> string \<Rightarrow> bool" where
  "size_ok T S b =
     (b = [] \<or> (\<exists>x. b = x @ ''. '' \<and> x \<noteq> [] \<and> \<not> is_space (hd x) \<and>
        (int (length x) + 1 \<le> T \<or> (x \<in> S \<and> T \<le> int (length x)))))"

section \<open>Values, errors and the two external collaborators\<close>

text \<open>
  Metadata values are Python scalars; a metadata record is a dictionary from string keys.
  The failures are those of the specification's taxonomy, followed by the two Python
  exceptions the programs can meet that belong to none of them: \<open>IndexError\<close> of a list
  subscript, and the \<open>AssertionError\<close> of the index library. In the source
  \<open>EmptyCorpus\<close> is \<^verbatim>\<open>ValueError("Nenhuma transcricao foi adicionada")\<close> (or
  \<^verbatim>\<open>"Nenhum documento foi adicionado"\<close>), \<open>NotIndexed\<close> is
  \<^verbatim>\<open>ValueError("Indice nao foi criado. Execute criar_indice() primeiro")\<close>; no
  statement of the source raises \<open>InvalidArgument\<close>.
\<close>

datatype pyval = PNone | PInt int | PStr string

type_synonym dict = "string \<rightharpoonup> pyval"

datatype error = InvalidArgument | EmptyCorpus | NotIndexed | IndexError | AssertionError

text \<open>Subscripting a Python list: a negative index counts from the end.\<close>

definition py_index :: "'a list \<Rightarrow> int \<Rightarrow> error + 'a" where
  "py_index xs i =
     (if 0 \<le> i \<and> i < int (length xs) then Inr (xs ! nat i)
      else if i < 0 \<and> - int (length xs) \<le> i then Inr (xs ! nat (int (length xs) + i))
      else Inl IndexError)"

text \<open>
  The embedding provider (\<^verbatim>\<open>SentenceTransformer.encode\<close>) is a parameter
  \<open>encode\<close> of the operations below, one vector per text; vectors are lists of
  rationals in place of \<^verbatim>\<open>float32\<close>.

  The vector index is \<^verbatim>\<open>faiss.IndexFlatL2\<close>, a library outside the repository. Its
  \<^verbatim>\<open>search(x, k)\<close> is modelled as the library documents it: it asserts \<^verbatim>\<open>k > 0\<close>,
  ranks the stored rows by squared L2 distance (equal distances by row number) and always
  fills \<open>k\<close> slots, the slots beyond the number of rows with the label \<open>-1\<close> and the
  largest \<^verbatim>\<open>float32\<close> as distance.
\<close>

type_synonym vec = "rat list"

definition l2sq :: "vec \<Rightarrow> vec \<Rightarrow> rat" where
  "l2sq x y = sum_list (map (\<lambda>(a, b). (a - b) * (a - b)) (zip x y))"

definition FLT_MAX :: rat where
  "FLT_MAX = 340282346638528859811704183484516925440"

definition faiss_search :: "vec list \<Rightarrow> vec \<Rightarrow> int \<Rightarrow> error + (rat \<times> int) list" where
  "faiss_search rows q k =
     (if k \<le> 0 then Inl AssertionError
      else let hits = take (nat k)
                        (sort (zip (map (l2sq q) rows) (map int [0..<length rows])))
           in Inr (hits @ replicate (nat k - length hits) (FLT_MAX, - 1)))"

section \<open>\<^verbatim>\<open>AudioEmbeddingSystem\<close>\<close>

text \<open>
  \<^verbatim>\<open>adicionar_transcricao\<close> writes into the dictionary object it is given, and the
  caller keeps its reference to that object. Dictionaries therefore live in a heap, a list
  of objects addressed by position; the system's \<^verbatim>\<open>metadados\<close> list holds
  addresses. The argument \<^verbatim>\<open>metadados=None\<close> is \<open>None\<close>, for which the method
  allocates a new empty dictionary. \<open>agora\<close> is the clock reading
  \<^verbatim>\<open>datetime.now().isoformat()\<close>. The method has no \<^verbatim>\<open>return\<close> statement:
  its value is Python's \<^verbatim>\<open>None\<close>.
\<close>

type_synonym addr = nat
type_synonym heap = "dict list"

record audio_system =
  transcricoes :: "string list"
  metadados :: "addr list"
  indice :: "vec list option"

definition audio_init :: audio_system where
  "audio_init = \<lparr>transcricoes = [], metadados = [], indice = None\<rparr>"

definition adicionar_transcricao ::
  "string \<Rightarrow> string \<Rightarrow> addr option \<Rightarrow> heap \<times> audio_system
     \<Rightarrow> pyval \<times> heap \<times> audio_system" where
  "adicionar_transcricao agora transcricao arg hs =
     (case hs of (h, s) \<Rightarrow>
        (case (case arg of None \<Rightarrow> (h @ [Map.empty], length h) | Some a \<Rightarrow> (h, a)) of
           (h1, m) \<Rightarrow>
             let h2 = (if (h1 ! m) ''timestamp'' = None
                       then h1[m := (h1 ! m)(''timestamp'' \<mapsto> PStr agora)] else h1);
                 h3 = h2[m := (h2 ! m)(''id'' \<mapsto> PInt (int (length (transcricoes s))))]
             in (PNone, h3,
                 s\<lparr>transcricoes := transcricoes s @ [transcricao],
                   metadados := metadados s @ [m]\<rparr>)))"

definition criar_indice :: "(string \<Rightarrow> vec) \<Rightarrow> audio_system \<Rightarrow> error + audio_system" where
  "criar_indice encode s =
     (if transcricoes s = [] then Inl EmptyCorpus
      else Inr (s\<lparr>indice := Some (map encode (transcricoes s))\<rparr>))"

record resultado =
  res_posicao :: int
  res_transcricao :: string
  res_metadados :: addr
  res_distancia :: rat
  res_similaridade :: rat

text \<open>The loop over \<^verbatim>\<open>zip(distancias[0], indices[0])\<close>; \<open>i\<close> is the \<^verbatim>\<open>enumerate\<close> counter.\<close>

fun montar_resultados ::
  "audio_system \<Rightarrow> int \<Rightarrow> (rat \<times> int) list \<Rightarrow> error + resultado list" where
  "montar_resultados s i [] = Inr []"
| "montar_resultados s i ((d, idx) # rest) =
     (case py_index (transcricoes s) idx of Inl e \<Rightarrow> Inl e | Inr t \<Rightarrow>
      (case py_index (metadados s) idx of Inl e \<Rightarrow> Inl e | Inr m \<Rightarrow>
       (case montar_resultados s (i + 1) rest of Inl e \<Rightarrow> Inl e | Inr rs \<Rightarrow>
          Inr (\<lparr>res_posicao = i + 1, res_transcricao = t, res_metadados = m,
                res_distancia = d, res_similaridade = 1 / (1 + d)\<rparr> # rs))))"

definition buscar_transcricoes ::
  "(string \<Rightarrow> vec) \<Rightarrow> audio_system \<Rightarrow> string \<Rightarrow> int \<Rightarrow> error + resultado list" where
  "buscar_transcricoes encode s consulta k =
     (case indice s of None \<Rightarrow> Inl NotIndexed
      | Some rows \<Rightarrow>
          (case faiss_search rows (encode consulta) k of Inl e \<Rightarrow> Inl e
           | Inr hits \<Rightarrow> montar_resultados s 0 hits))"

text \<open>
  A run of calls, as the demonstrations make them
  (\<^verbatim>\<open>for item in dados: sistema.adicionar_transcricao(...)\<close>): each call is its clock
  reading, its text and its metadata argument.
\<close>

type_synonym add_op = "string \<times> string \<times> addr option"

definition aplicar_add :: "add_op \<Rightarrow> heap \<times> audio_system \<Rightarrow> heap \<times> audio_system" where
  "aplicar_add op hs =
     (case op of (agora, transcricao, arg) \<Rightarrow>
        snd (adicionar_transcricao agora transcricao arg hs))"

definition adicionar_transcricoes ::
  "add_op list \<Rightarrow> heap \<times> audio_system \<Rightarrow> heap \<times> audio_system" where
  "adicionar_transcricoes ops hs = fold aplicar_add ops hs"

text \<open>
  Every dictionary passed in such a run is an object that exists at the time of the call
  and that the system does not hold yet: no object is passed to two calls.
\<close>

fun args_frescos :: "add_op list \<Rightarrow> heap \<times> audio_system \<Rightarrow> bool" where
  "args_frescos [] hs = True"
| "args_frescos (op # ops) hs =
     ((case snd (snd op) of None \<Rightarrow> True
       | Some a \<Rightarrow> a < length (fst hs) \<and> a \<notin> set (metadados (snd hs)))
      \<and> args_frescos ops (aplicar_add op hs))"

definition ids_ok :: "heap \<times> audio_system \<Rightarrow> bool" where
  "ids_ok hs =
     (case hs of (h, s) \<Rightarrow>
        distinct (metadados s) \<and>
        (\<forall>i < length (metadados s).
           metadados s ! i < length h \<and> (h ! (metadados s ! i)) ''id'' = Some (PInt (int i))))"

section \<open>\<^verbatim>\<open>SistemaRAG\<close>\<close>

text \<open>
  Here every chunk gets a dictionary of its own, built by the literal
  \<^verbatim>\<open>{'doc_id': doc_id, 'chunk_id': i, 'titulo': titulo, **metadados}\<close>, in which the
  caller's entries come last and win; nothing is written into the caller's dictionary, so
  dictionaries are values here.
\<close>

record documento =
  doc_id :: int
  doc_titulo :: string
  doc_texto :: string
  doc_metadados :: dict

record rag_system =
  documentos :: "documento list"
  chunks :: "string list"
  rag_metadados :: "dict list"
  rag_indice :: "vec list option"

definition rag_init :: rag_system where
  "rag_init = \<lparr>documentos = [], chunks = [], rag_metadados = [], rag_indice = None\<rparr>"

definition chunk_metadados :: "int \<Rightarrow> nat \<Rightarrow> string \<Rightarrow> dict \<Rightarrow> dict" where
  "chunk_metadados d i titulo md =
     [''doc_id'' \<mapsto> PInt d, ''chunk_id'' \<mapsto> PInt (int i), ''titulo'' \<mapsto> PStr titulo] ++ md"

fun adicionar_chunks ::
  "int \<Rightarrow> string \<Rightarrow> dict \<Rightarrow> (nat \<times> string) list \<Rightarrow> rag_system \<Rightarrow> rag_system" where
  "adicionar_chunks d titulo md [] r = r"
| "adicionar_chunks d titulo md ((i, chunk) # rest) r =
     adicionar_chunks d titulo md rest
       (r\<lparr>chunks := chunks r @ [chunk],
          rag_metadados := rag_metadados r @ [chunk_metadados d i titulo md]\<rparr>)"

definition adicionar_documento ::
  "string \<Rightarrow> string \<Rightarrow> dict option \<Rightarrow> rag_system \<Rightarrow> rag_system" where
  "adicionar_documento texto titulo arg r =
     (let md = (case arg of None \<Rightarrow> Map.empty | Some m \<Rightarrow> m);
          chunks_doc = dividir_em_chunks texto 500;
          d = int (length (documentos r));
          r1 = r\<lparr>documentos := documentos r @
                  [\<lparr>doc_id = d, doc_titulo = titulo, doc_texto = texto, doc_metadados = md\<rparr>]\<rparr>
      in adicionar_chunks d titulo md (enumerate 0 chunks_doc) r1)"

definition rag_criar_indice :: "(string \<Rightarrow> vec) \<Rightarrow> rag_system \<Rightarrow> error + rag_system" where
  "rag_criar_indice encode r =
     (if chunks r = [] then Inl EmptyCorpus
      else Inr (r\<lparr>rag_indice := Some (map encode (chunks r))\<rparr>))"

record contexto_item =
  ctx_chunk :: string
  ctx_metadados :: dict
  ctx_distancia :: rat
  ctx_similaridade :: rat

fun montar_contexto :: "rag_system \<Rightarrow> (rat \<times> int) list \<Rightarrow> error + contexto_item list" where
  "montar_contexto r [] = Inr []"
| "montar_contexto r ((d, idx) # rest) =
     (case py_index (chunks r) idx of Inl e \<Rightarrow> Inl e | Inr c \<Rightarrow>
      (case py_index (rag_metadados r) idx of Inl e \<Rightarrow> Inl e | Inr m \<Rightarrow>
       (case montar_contexto r rest of Inl e \<Rightarrow> Inl e | Inr cs \<Rightarrow>
          Inr (\<lparr>ctx_chunk = c, ctx_metadados = m, ctx_distancia = d,
                ctx_similaridade = 1 / (1 + d)\<rparr> # cs))))"

definition recuperar_contexto ::
  "(string \<Rightarrow> vec) \<Rightarrow> rag_system \<Rightarrow> string \<Rightarrow> int \<Rightarrow> error + contexto_item list" where
  "recuperar_contexto encode r pergunta k =
     (case rag_indice r of None \<Rightarrow> Inl NotIndexed
      | Some rows \<Rightarrow>
          (case faiss_search rows (encode pergunta) k of Inl e \<Rightarrow> Inl e
           | Inr hits \<Rightarrow> montar_contexto r hits))"

text \<open>A run of calls (\<^verbatim>\<open>for doc in documentos: rag.adicionar_documento(...)\<close>).\<close>

type_synonym doc_op = "string \<times> string \<times> dict option"

definition aplicar_doc :: "doc_op \<Rightarrow> rag_system \<Rightarrow> rag_system" where
  "aplicar_doc op r = (case op of (texto, titulo, arg) \<Rightarrow> adicionar_documento texto titulo arg r)"

definition adicionar_documentos :: "doc_op list \<Rightarrow> rag_system \<Rightarrow> rag_system" where
  "adicionar_documentos ops r = fold aplicar_doc ops r"

text \<open>What a call's metadata argument has under a key (nothing, when it is \<^verbatim>\<open>None\<close>).\<close>

definition arg_lookup :: "doc_op \<Rightarrow> string \<Rightarrow> pyval option" where
  "arg_lookup op key = (case snd (snd op) of None \<Rightarrow> None | Some m \<Rightarrow> m key)"

text \<open>A small provider and corpus for the concrete runs below.\<close>

definition enc_demo :: "string \<Rightarrow> vec" where
  "enc_demo t =
     (if t = ''cat'' \<or> t = ''cat.'' then [0] else if t = ''dog'' \<or> t = ''dog.'' then [1] else [3])"

definition audio_demo :: "heap \<times> audio_system" where
  "audio_demo =
     adicionar_transcricoes
       [(''t0'', ''cat'', None), (''t1'', ''dog'', None), (''t2'', ''car'', None)]
       ([], audio_init)"

definition rag_demo :: rag_system where
  "rag_demo =
     adicionar_documentos [(''cat'', ''a'', None), (''dog'', ''b'', None), (''car'', ''c'', None)]
       rag_init"

text \<open>A run in which the first call passes a dictionary of the caller.\<close>

definition audio_misto :: "heap \<times> audio_system" where
  "audio_misto =
     adicionar_transcricoes [(''t0'', ''cat'', Some 0), (''t1'', ''dog'', None)]
       ([[''falante'' \<mapsto> PStr ''Cliente A'']], audio_init)"

text \<open>The two systems after their build.\<close>

definition audio_pronto :: audio_system where
  "audio_pronto = (snd audio_demo)\<lparr>indice := Some [[0], [1], [3]]\<rparr>"

definition rag_pronto :: rag_system where
  "rag_pronto = rag_demo\<lparr>rag_indice := Some [[0], [1], [3]]\<rparr>"

text \<open>
  Invariant of the chunk records of \<^verbatim>\<open>SistemaRAG\<close> over a run of additions: the
  two lists are equally long, and what a record has under \<open>id\<close> is what the metadata
  argument of one of the calls had there.
\<close>

definition rag_ids_from :: "doc_op set \<Rightarrow> rag_system \<Rightarrow> bool" where
  "rag_ids_from D r =
     (length (chunks r) = length (rag_metadados r) \<and>
      (\<forall>m \<in> set (rag_metadados r). \<exists>op \<in> D. m ''id'' = arg_lookup op ''id''))"

text \<open>
  The records \<^verbatim>\<open>adicionar_documento\<close> appends for the document numbered \<open>d\<close>:
  one per chunk, in order, each the dictionary literal of the source.
\<close>

definition registros_documento :: "nat \<Rightarrow> doc_op \<Rightarrow> dict list" where
  "registros_documento d op =
     (case op of (texto, titulo, arg) \<Rightarrow>
        map (\<lambda>ic. chunk_metadados (int d) (fst ic) titulo
                     (case arg of None \<Rightarrow> Map.empty | Some m \<Rightarrow> m))
          (enumerate 0 (dividir_em_chunks texto 500)))"

section \<open>The chunker: content and size of the chunks\<close>

lemma is_space_blank [simp]: "is_space CHR '' ''"
  by (simp add: is_space_def)

lemma not_is_space_dot [simp]: "\<not> is_space CHR ''.''"
  by (simp add: is_space_def)

lemma strip_hd: "strip p \<noteq> [] \<Longrightarrow> \<not> is_space (hd (strip p))"
  unfolding strip_def by (rule hd_dropWhile)

lemma strip_buffer: "x \<noteq> [] \<Longrightarrow> \<not> is_space (hd x) \<Longrightarrow> strip (x @ ''. '') = x @ ''.''"
  by (cases x) (simp_all add: strip_def)

lemma buffer_ok_strip: "buffer_ok b \<Longrightarrow> b \<noteq> [] \<Longrightarrow> strip b @ '' '' = b \<and> strip b \<noteq> []"
  by (auto simp: buffer_ok_def strip_buffer)

lemma buffer_ok_first: "s \<noteq> [] \<Longrightarrow> \<not> is_space (hd s) \<Longrightarrow> buffer_ok (s @ ''. '')"
  by (auto simp: buffer_ok_def)

lemma buffer_ok_append:
  "buffer_ok b \<Longrightarrow> s \<noteq> [] \<Longrightarrow> \<not> is_space (hd s) \<Longrightarrow> buffer_ok (b @ s @ ''. '')"
proof (cases "b = []")
  case True
  assume "s \<noteq> []" "\<not> is_space (hd s)"
  with True show ?thesis by (simp add: buffer_ok_first)
next
  case False
  assume "buffer_ok b" "s \<noteq> []"
  with False obtain x where x: "b = x @ ''. ''" "x \<noteq> []" "\<not> is_space (hd x)"
    by (auto simp: buffer_ok_def)
  have "b @ s @ ''. '' = (x @ ''. '' @ s) @ ''. ''" using x by simp
  moreover have "x @ ''. '' @ s \<noteq> []" "\<not> is_space (hd (x @ ''. '' @ s))" using x by simp_all
  ultimately show ?thesis unfolding buffer_ok_def by blast
qed

lemma chunk_loop_content:
  "chunk_loop T ps acc b = (acc', b') \<Longrightarrow> buffer_ok b \<Longrightarrow> [] \<notin> set acc \<Longrightarrow>
   buffer_ok b' \<and> [] \<notin> set acc' \<and>
   juntar_chunks acc' @ b' =
     juntar_chunks acc @ b @ normalizar (filter (\<lambda>s. s \<noteq> []) (map strip ps))"
proof (induction ps arbitrary: acc b)
  case Nil
  then show ?case by (simp add: normalizar_def)
next
  case (Cons p ps)
  show ?case
  proof (cases "strip p = []")
    case True
    with Cons.prems have "chunk_loop T ps acc b = (acc', b')" by simp
    from Cons.IH [OF this Cons.prems(2,3)] True show ?thesis by simp
  next
    case False
    note ne = False
    have hd: "\<not> is_space (hd (strip p))" using strip_hd [OF ne] .
    show ?thesis
    proof (cases "int (length (b @ strip p)) < T")
      case True
      with ne Cons.prems have run: "chunk_loop T ps acc (b @ strip p @ ''. '') = (acc', b')"
        by (simp add: Let_def)
      have ok: "buffer_ok (b @ strip p @ ''. '')"
        using buffer_ok_append [OF Cons.prems(2) ne hd] .
      from Cons.IH [OF run ok Cons.prems(3)] ne show ?thesis
        by (simp add: normalizar_def)
    next
      case False
      let ?cs = "if b \<noteq> [] then acc @ [strip b] else acc"
      from False ne Cons.prems have run: "chunk_loop T ps ?cs (strip p @ ''. '') = (acc', b')"
        by (simp add: Let_def)
      have ok: "buffer_ok (strip p @ ''. '')" using buffer_ok_first [OF ne hd] .
      have nocs: "[] \<notin> set ?cs"
        using Cons.prems(3) buffer_ok_strip [OF Cons.prems(2)] by auto
      have j: "juntar_chunks ?cs = juntar_chunks acc @ b"
        using buffer_ok_strip [OF Cons.prems(2)] by (auto simp: juntar_chunks_def)
      from Cons.IH [OF run ok nocs] ne j show ?thesis
        by (simp add: normalizar_def)
    qed
  qed
qed

lemma dividir_content:
  "[] \<notin> set (dividir_em_chunks texto T) \<and>
   juntar_chunks (dividir_em_chunks texto T) = normalizar (sentencas texto)"
proof -
  obtain cs b where run: "chunk_loop T (re_split texto) [] [] = (cs, b)"
    by (cases "chunk_loop T (re_split texto) [] []")
  have ok: "buffer_ok []" by (simp add: buffer_ok_def)
  from chunk_loop_content [OF run ok] have
    b: "buffer_ok b" and cs: "[] \<notin> set cs" and
    j: "juntar_chunks cs @ b = normalizar (sentencas texto)"
    by (simp_all add: juntar_chunks_def sentencas_def)
  show ?thesis
  proof (cases "b = []")
    case True
    with run cs j show ?thesis by (simp add: dividir_em_chunks_def)
  next
    case False
    from buffer_ok_strip [OF b False] have "strip b @ '' '' = b" "strip b \<noteq> []" by simp_all
    with False run cs j show ?thesis by (auto simp add: dividir_em_chunks_def juntar_chunks_def)
  qed
qed

lemma not_is_delim_blank [simp]: "\<not> is_delim CHR '' ''"
  by (simp add: is_delim_def)

lemma is_delim_dot [simp]: "is_delim CHR ''.''"
  by (simp add: is_delim_def)

lemma dropWhile_self: "xs \<noteq> [] \<Longrightarrow> \<not> P (hd xs) \<Longrightarrow> dropWhile P xs = xs"
  by (cases xs) simp_all

lemma strip_last: "strip p \<noteq> [] \<Longrightarrow> \<not> is_space (last (strip p))"
proof -
  assume ne: "strip p \<noteq> []"
  define y where "y = dropWhile is_space (rev p)"
  have sp: "strip p = dropWhile is_space (rev y)" by (simp add: strip_def y_def)
  with ne have yne: "y \<noteq> []" by auto
  then have hy: "\<not> is_space (hd y)" unfolding y_def by (rule hd_dropWhile)
  have "rev y = takeWhile is_space (rev y) @ strip p" using sp by simp
  then have "last (rev y) = last (strip p)" using ne by (metis last_appendR)
  then show ?thesis using hy yne by (simp add: last_rev)
qed

lemma strip_subset: "set (strip p) \<subseteq> set p"
proof
  fix c assume "c \<in> set (strip p)"
  then have "c \<in> set (rev (dropWhile is_space (rev p)))"
    unfolding strip_def by (rule set_dropWhileD)
  then have "c \<in> set (dropWhile is_space (rev p))" by simp
  then have "c \<in> set (rev p)" by (rule set_dropWhileD)
  then show "c \<in> set p" by simp
qed

lemma re_split_pieces: "p \<in> set (re_split s) \<Longrightarrow> \<forall>c \<in> set p. \<not> is_delim c"
proof (induction s rule: re_split.induct)
  case (1 s)
  show ?case
  proof (cases "dropWhile (\<lambda>c. \<not> is_delim c) s")
    case Nil
    with "1.prems" have "p = s" by (simp add: re_split.simps [of s])
    moreover from Nil have "\<forall>c \<in> set s. \<not> is_delim c" by (simp add: dropWhile_eq_Nil_conv)
    ultimately show ?thesis by simp
  next
    case (Cons d r)
    with "1.prems" have "p = takeWhile (\<lambda>c. \<not> is_delim c) s \<or> p \<in> set (re_split (dropWhile is_delim r))"
      by (simp add: re_split.simps [of s])
    then show ?thesis
    proof
      assume "p = takeWhile (\<lambda>c. \<not> is_delim c) s"
      then show ?thesis by (auto dest: set_takeWhileD)
    next
      assume "p \<in> set (re_split (dropWhile is_delim r))"
      with "1.IH" [OF Cons] show ?thesis by simp
    qed
  qed
qed

lemma sentencas_limpa: "s \<in> set (sentencas texto) \<Longrightarrow> limpa s"
proof -
  assume "s \<in> set (sentencas texto)"
  then obtain p where p: "p \<in> set (re_split texto)" "s = strip p" "strip p \<noteq> []"
    by (auto simp: sentencas_def)
  from re_split_pieces [OF p(1)] strip_subset [of p] have "\<forall>c \<in> set (strip p). \<not> is_delim c" by blast
  with p strip_hd [OF p(3)] strip_last [OF p(3)] show ?thesis by (simp add: limpa_def)
qed

lemma strip_limpa: "limpa s \<Longrightarrow> strip s = s"
  by (simp add: limpa_def strip_def dropWhile_self hd_rev)

lemma strip_blank_limpa: "limpa s \<Longrightarrow> strip (CHR '' '' # s) = s"
proof -
  assume l: "limpa s"
  then have "dropWhile is_space (rev s @ '' '') = rev s @ '' ''"
    by (intro dropWhile_self) (simp_all add: limpa_def hd_append hd_rev)
  with l show ?thesis by (simp add: strip_def limpa_def dropWhile_self)
qed

lemma re_split_no_delim: "\<forall>c \<in> set s. \<not> is_delim c \<Longrightarrow> re_split s = [s]"
  by (simp add: re_split.simps [of s] dropWhile_eq_Nil_conv [THEN iffD2])

lemma re_split_sentence:
  assumes "\<forall>c \<in> set s. \<not> is_delim c"
  shows "re_split (s @ ''. '' @ rest) = s # re_split (CHR '' '' # rest)"
proof -
  have d: "dropWhile (\<lambda>c. \<not> is_delim c) (s @ ''. '' @ rest) = ''. '' @ rest"
    using assms by (simp add: dropWhile_append2)
  have t: "takeWhile (\<lambda>c. \<not> is_delim c) (s @ ''. '' @ rest) = s"
    using assms by (simp add: takeWhile_append2)
  show ?thesis by (subst re_split.simps) (use d t in simp)
qed

lemma re_split_blank_normalizar:
  "\<forall>s \<in> set ss. limpa s \<Longrightarrow>
   re_split (CHR '' '' # normalizar ss) = map (\<lambda>s. CHR '' '' # s) ss @ ['' '']"
proof (induction ss)
  case Nil
  show ?case by (simp add: normalizar_def re_split_no_delim)
next
  case (Cons s ss)
  then have nd: "\<forall>c \<in> set (CHR '' '' # s). \<not> is_delim c" by (simp add: limpa_def)
  have "CHR '' '' # normalizar (s # ss) = (CHR '' '' # s) @ ''. '' @ normalizar ss"
    by (simp add: normalizar_def)
  then have "re_split (CHR '' '' # normalizar (s # ss)) = (CHR '' '' # s) # re_split (CHR '' '' # normalizar ss)"
    using re_split_sentence [OF nd, of "normalizar ss"] by simp
  with Cons show ?case by simp
qed

lemma sentencas_normalizar: "\<forall>s \<in> set ss. limpa s \<Longrightarrow> sentencas (normalizar ss) = ss"
proof (cases ss)
  case Nil
  then show ?thesis by (simp add: normalizar_def sentencas_def re_split_no_delim strip_def)
next
  case (Cons s rest)
  assume all: "\<forall>s \<in> set ss. limpa s"
  with Cons have s: "limpa s" and rest: "\<forall>s \<in> set rest. limpa s" by simp_all
  from s have nd: "\<forall>c \<in> set s. \<not> is_delim c" by (simp add: limpa_def)
  have "normalizar ss = s @ ''. '' @ normalizar rest" using Cons by (simp add: normalizar_def)
  then have rs: "re_split (normalizar ss) = s # map (\<lambda>s. CHR '' '' # s) rest @ ['' '']"
    using re_split_sentence [OF nd, of "normalizar rest"] re_split_blank_normalizar [OF rest] by simp
  have m: "map strip (map (\<lambda>s. CHR '' '' # s) rest) = rest"
    using rest by (induction rest) (simp_all add: strip_blank_limpa)
  have f: "filter (\<lambda>s. s \<noteq> []) rest = rest"
    using rest by (induction rest) (simp_all add: limpa_def)
  have "strip '' '' = []" by (simp add: strip_def)
  with rs m f s Cons show ?thesis
    by (simp add: sentencas_def strip_limpa limpa_def del: map_map)
qed

lemma sentencas_juntar_chunks: "sentencas (juntar_chunks (dividir_em_chunks texto T)) = sentencas texto"
  using dividir_content [of texto T] sentencas_normalizar [of "sentencas texto"] sentencas_limpa
  by simp

lemma size_ok_flush: "size_ok T S b \<Longrightarrow> b \<noteq> [] \<Longrightarrow> chunk_ok T S (strip b)"
  by (auto simp: size_ok_def chunk_ok_def strip_buffer)

lemma size_ok_first:
  "s \<noteq> [] \<Longrightarrow> \<not> is_space (hd s) \<Longrightarrow> s \<in> S \<Longrightarrow> size_ok T S (s @ ''. '')"
  unfolding size_ok_def by (cases "T \<le> int (length s)") auto

lemma size_ok_append:
  assumes "size_ok T S b" "s \<noteq> []" "\<not> is_space (hd s)" "int (length (b @ s)) < T"
  shows "size_ok T S (b @ s @ ''. '')"
proof (cases "b = []")
  case True
  with assms show ?thesis by (auto simp: size_ok_def)
next
  case False
  with assms(1) obtain x where x: "b = x @ ''. ''" "x \<noteq> []" "\<not> is_space (hd x)"
    by (auto simp: size_ok_def)
  let ?y = "x @ ''. '' @ s"
  have "b @ s @ ''. '' = ?y @ ''. ''" using x by simp
  moreover have "?y \<noteq> []" "\<not> is_space (hd ?y)" using x by simp_all
  moreover have "int (length ?y) + 1 \<le> T" using assms(4) x by simp
  ultimately show ?thesis unfolding size_ok_def by blast
qed

lemma chunk_loop_size:
  "chunk_loop T ps acc b = (acc', b') \<Longrightarrow> size_ok T S b \<Longrightarrow>
   \<forall>c \<in> set acc. chunk_ok T S c \<Longrightarrow>
   \<forall>p \<in> set ps. strip p \<noteq> [] \<longrightarrow> strip p \<in> S \<Longrightarrow>
   size_ok T S b' \<and> (\<forall>c \<in> set acc'. chunk_ok T S c)"
proof (induction ps arbitrary: acc b)
  case Nil
  then show ?case by simp
next
  case (Cons p ps)
  have rest: "\<forall>p \<in> set ps. strip p \<noteq> [] \<longrightarrow> strip p \<in> S" using Cons.prems(4) by simp
  show ?case
  proof (cases "strip p = []")
    case True
    with Cons.prems have "chunk_loop T ps acc b = (acc', b')" by simp
    from Cons.IH [OF this Cons.prems(2,3) rest] show ?thesis .
  next
    case False
    note ne = False
    have hd: "\<not> is_space (hd (strip p))" using strip_hd [OF ne] .
    have inS: "strip p \<in> S" using Cons.prems(4) ne by simp
    show ?thesis
    proof (cases "int (length (b @ strip p)) < T")
      case True
      with ne Cons.prems have run: "chunk_loop T ps acc (b @ strip p @ ''. '') = (acc', b')"
        by (simp add: Let_def)
      from Cons.IH [OF run size_ok_append [OF Cons.prems(2) ne hd True] Cons.prems(3) rest]
      show ?thesis .
    next
      case False
      let ?cs = "if b \<noteq> [] then acc @ [strip b] else acc"
      from False ne Cons.prems have run: "chunk_loop T ps ?cs (strip p @ ''. '') = (acc', b')"
        by (simp add: Let_def)
      have cs: "\<forall>c \<in> set ?cs. chunk_ok T S c"
        using Cons.prems(3) size_ok_flush [OF Cons.prems(2)] by auto
      from Cons.IH [OF run size_ok_first [OF ne hd inS] cs rest] show ?thesis .
    qed
  qed
qed

lemma dividir_size: "c \<in> set (dividir_em_chunks texto T) \<Longrightarrow> chunk_ok T (set (sentencas texto)) c"
proof -
  assume c: "c \<in> set (dividir_em_chunks texto T)"
  let ?S = "set (sentencas texto)"
  obtain cs b where run: "chunk_loop T (re_split texto) [] [] = (cs, b)"
    by (cases "chunk_loop T (re_split texto) [] []")
  have "size_ok T ?S []" by (simp add: size_ok_def)
  moreover have "\<forall>c \<in> set []. chunk_ok T ?S c" by simp
  moreover have "\<forall>p \<in> set (re_split texto). strip p \<noteq> [] \<longrightarrow> strip p \<in> ?S"
    by (simp add: sentencas_def)
  ultimately have b: "size_ok T ?S b" and cs: "\<forall>c \<in> set cs. chunk_ok T ?S c"
    using chunk_loop_size [OF run] by blast+
  from c run have "c \<in> set cs \<or> (b \<noteq> [] \<and> c = strip b)"
    by (auto simp: dividir_em_chunks_def split: if_splits)
  with cs size_ok_flush [OF b] show ?thesis by auto
qed

text \<open>
  Claim C5. Every chunk the chunker produces is at most the target size long, unless it is
  a single sentence of the input, closed by its full stop, and that sentence alone is
  already as long as the target size or longer. This holds for every target size, hence
  for every target size of at least 1.
\<close>

theorem C5_chunk_size_bound:
  assumes "c \<in> set (dividir_em_chunks texto tamanho_chunk)"
  shows "int (length c) \<le> tamanho_chunk \<or>
         (\<exists>s \<in> set (sentencas texto). c = s @ ''.'' \<and> tamanho_chunk \<le> int (length s))"
  using dividir_size [OF assms] by (simp add: chunk_ok_def)

theorem C5_chunk_size_bound_witness:
  "''Hello world.'' \<in> set (dividir_em_chunks ''Hello world. Bye!  Now?? ok'' 10) \<and>
   (int (length ''Hello world.'') \<le> 10 \<or>
    (\<exists>s \<in> set (sentencas ''Hello world. Bye!  Now?? ok'').
       ''Hello world.'' = s @ ''.'' \<and> 10 \<le> int (length s)))"
proof -
  have h: "''Hello world.'' \<in> set (dividir_em_chunks ''Hello world. Bye!  Now?? ok'' 10)"
    by code_simp
  from C5_chunk_size_bound [OF h] h show ?thesis by blast
qed

text \<open>
  Claim C6. No chunk is empty, and the chunks carry exactly the sentences of the input, in
  order, none lost and none twice: joined, with the blank that was stripped from the end of
  each put back, they spell the non-empty trimmed sentences of the input one after the
  other, each followed by a full stop and a blank; and splitting the joined chunks into
  sentences again gives the sentences of the input. This holds for every text, hence for
  every non-empty one.
\<close>

theorem C6_chunks_reconstruct:
  "[] \<notin> set (dividir_em_chunks texto tamanho_chunk) \<and>
   juntar_chunks (dividir_em_chunks texto tamanho_chunk) = normalizar (sentencas texto) \<and>
   sentencas (juntar_chunks (dividir_em_chunks texto tamanho_chunk)) = sentencas texto"
  using dividir_content [of texto tamanho_chunk] sentencas_juntar_chunks [of texto tamanho_chunk]
  by simp

theorem C6_chunks_reconstruct_witness:
  "dividir_em_chunks ''Hello world. Bye!  Now?? ok'' 10 = [''Hello world.'', ''Bye. Now.'', ''ok.''] \<and>
   sentencas ''Hello world. Bye!  Now?? ok'' = [''Hello world'', ''Bye'', ''Now'', ''ok''] \<and>
   juntar_chunks [''Hello world.'', ''Bye. Now.'', ''ok.''] = ''Hello world. Bye. Now. ok. '' \<and>
   sentencas ''Hello world. Bye. Now. ok. '' = [''Hello world'', ''Bye'', ''Now'', ''ok'']"
proof -
  have d: "dividir_em_chunks ''Hello world. Bye!  Now?? ok'' 10 =
           [''Hello world.'', ''Bye. Now.'', ''ok.'']"
    by code_simp
  have s: "sentencas ''Hello world. Bye!  Now?? ok'' = [''Hello world'', ''Bye'', ''Now'', ''ok'']"
    by code_simp
  have j: "juntar_chunks [''Hello world.'', ''Bye. Now.'', ''ok.''] = ''Hello world. Bye. Now. ok. ''"
    by (simp add: juntar_chunks_def)
  note c = C6_chunks_reconstruct [of "''Hello world. Bye!  Now?? ok''" 10, unfolded d s j]
  from c d s j show ?thesis
    by blast
qed

text \<open>
  Two concrete texts: three short sentences merge into one chunk under a target of 100;
  a comma is no sentence terminator, so a text of commas is a sentence and yields a chunk.
\<close>

lemma three_sentences_one_chunk: "dividir_em_chunks ''A. B. C.'' 100 = [''A. B. C.'']"
  by code_simp

lemma commas_are_a_sentence: "dividir_em_chunks '',,'' 500 = ['',,.'']"
  by code_simp

section \<open>The two pipelines: failures, build, additions\<close>

lemma adicionar_transcricao_indice:
  "indice (snd (snd (adicionar_transcricao agora t arg hs))) = indice (snd hs)"
  by (cases hs; cases arg) (simp_all add: adicionar_transcricao_def Let_def)

lemma adicionar_transcricoes_indice:
  "indice (snd (adicionar_transcricoes ops hs)) = indice (snd hs)"
  unfolding adicionar_transcricoes_def
proof (induction ops arbitrary: hs)
  case Nil
  show ?case by simp
next
  case (Cons op ops)
  have "indice (snd (aplicar_add op hs)) = indice (snd hs)"
    by (cases op) (simp add: aplicar_add_def adicionar_transcricao_indice)
  with Cons show ?case by simp
qed

lemma adicionar_chunks_frame:
  "documentos (adicionar_chunks d titulo md ics r) = documentos r \<and>
   rag_indice (adicionar_chunks d titulo md ics r) = rag_indice r"
  by (induction d titulo md ics r rule: adicionar_chunks.induct) simp_all

lemma adicionar_documento_indice:
  "rag_indice (adicionar_documento texto titulo arg r) = rag_indice r"
  by (simp add: adicionar_documento_def Let_def adicionar_chunks_frame)

lemma adicionar_documentos_indice:
  "rag_indice (adicionar_documentos docs r) = rag_indice r"
  unfolding adicionar_documentos_def
proof (induction docs arbitrary: r)
  case Nil
  show ?case by simp
next
  case (Cons op docs)
  have "rag_indice (aplicar_doc op r) = rag_indice r"
    by (cases op) (simp add: aplicar_doc_def adicionar_documento_indice)
  with Cons show ?case by simp
qed

text \<open>
  Claim C7. A search while the index is unset fails with \<open>NotIndexed\<close>: for any state
  whose index field is \<open>None\<close>, and so in every state reached from the initial one by
  additions alone, since no addition sets the field. A build on a store without units
  fails with \<open>EmptyCorpus\<close>. Both classes.
\<close>

theorem C7_search_unindexed_build_empty:
  "(indice s = None \<longrightarrow> buscar_transcricoes encode s consulta k = Inl NotIndexed) \<and>
   (rag_indice r = None \<longrightarrow> recuperar_contexto encode r pergunta k = Inl NotIndexed) \<and>
   buscar_transcricoes encode (snd (adicionar_transcricoes ops (h, audio_init))) consulta k
     = Inl NotIndexed \<and>
   recuperar_contexto encode (adicionar_documentos docs rag_init) pergunta k = Inl NotIndexed \<and>
   (transcricoes s = [] \<longrightarrow> criar_indice encode s = Inl EmptyCorpus) \<and>
   (chunks r = [] \<longrightarrow> rag_criar_indice encode r = Inl EmptyCorpus)"
proof -
  have "indice (snd (adicionar_transcricoes ops (h, audio_init))) = None"
    by (simp add: adicionar_transcricoes_indice audio_init_def)
  moreover have "rag_indice (adicionar_documentos docs rag_init) = None"
    by (simp add: adicionar_documentos_indice rag_init_def)
  ultimately show ?thesis
    by (simp add: buscar_transcricoes_def recuperar_contexto_def criar_indice_def
        rag_criar_indice_def)
qed

theorem C7_search_unindexed_build_empty_witness:
  "indice audio_init = None \<and> buscar_transcricoes enc_demo audio_init ''cat'' 3 = Inl NotIndexed \<and>
   rag_indice rag_init = None \<and> recuperar_contexto enc_demo rag_init ''cat'' 3 = Inl NotIndexed \<and>
   buscar_transcricoes enc_demo (snd audio_demo) ''cat'' 3 = Inl NotIndexed \<and>
   recuperar_contexto enc_demo rag_demo ''cat'' 3 = Inl NotIndexed \<and>
   transcricoes audio_init = [] \<and> criar_indice enc_demo audio_init = Inl EmptyCorpus \<and>
   chunks rag_init = [] \<and> rag_criar_indice enc_demo rag_init = Inl EmptyCorpus"
proof -
  have a: "indice audio_init = None" "transcricoes audio_init = []"
    by (simp_all add: audio_init_def)
  have r: "rag_indice rag_init = None" "chunks rag_init = []"
    by (simp_all add: rag_init_def)
  from a r
    C7_search_unindexed_build_empty [of audio_init enc_demo "''cat''" 3 rag_init "''cat''"
      "[(''t0'', ''cat'', None), (''t1'', ''dog'', None), (''t2'', ''car'', None)]" "[]"
      "[(''cat'', ''a'', None), (''dog'', ''b'', None), (''car'', ''c'', None)]"]
  show ?thesis by (simp add: audio_demo_def rag_demo_def)
qed

text \<open>
  Claim C8. On a non-empty corpus a build succeeds and stores the vectors of all units in
  store order; building again straight away succeeds and gives the very same state, so the
  index content and the result of every later search are those after one build. (The
  embedding provider is a function of the text.)
\<close>

theorem C8_build_idempotent:
  "(transcricoes s \<noteq> [] \<longrightarrow>
      (\<exists>s1 s2. criar_indice encode s = Inr s1 \<and> criar_indice encode s1 = Inr s2 \<and>
         indice s1 = Some (map encode (transcricoes s)) \<and> indice s2 = indice s1 \<and> s2 = s1 \<and>
         (\<forall>consulta k. buscar_transcricoes encode s2 consulta k
                        = buscar_transcricoes encode s1 consulta k))) \<and>
   (chunks r \<noteq> [] \<longrightarrow>
      (\<exists>r1 r2. rag_criar_indice encode r = Inr r1 \<and> rag_criar_indice encode r1 = Inr r2 \<and>
         rag_indice r1 = Some (map encode (chunks r)) \<and> rag_indice r2 = rag_indice r1 \<and> r2 = r1 \<and>
         (\<forall>pergunta k. recuperar_contexto encode r2 pergunta k
                        = recuperar_contexto encode r1 pergunta k)))"
  by (simp add: criar_indice_def rag_criar_indice_def)

theorem C8_build_idempotent_witness:
  "transcricoes (snd audio_demo) \<noteq> [] \<and>
   (\<exists>s1. criar_indice enc_demo (snd audio_demo) = Inr s1 \<and> criar_indice enc_demo s1 = Inr s1 \<and>
      indice s1 = Some [[0], [1], [3]]) \<and>
   chunks rag_demo \<noteq> [] \<and>
   (\<exists>r1. rag_criar_indice enc_demo rag_demo = Inr r1 \<and> rag_criar_indice enc_demo r1 = Inr r1 \<and>
      rag_indice r1 = Some [[0], [1], [3]])"
proof -
  have a: "transcricoes (snd audio_demo) = [''cat'', ''dog'', ''car'']"
    by (simp add: audio_demo_def adicionar_transcricoes_def aplicar_add_def
        adicionar_transcricao_def audio_init_def)
  have d: "dividir_em_chunks ''cat'' 500 = [''cat.'']" "dividir_em_chunks ''dog'' 500 = [''dog.'']"
    "dividir_em_chunks ''car'' 500 = [''car.'']"
    by code_simp+
  have r: "chunks rag_demo = [''cat.'', ''dog.'', ''car.'']"
    by (simp add: rag_demo_def adicionar_documentos_def aplicar_doc_def
        adicionar_documento_def rag_init_def d enumerate_eq_zip Let_def)
  from a r C8_build_idempotent [of "snd audio_demo" enc_demo rag_demo]
  show ?thesis by (auto simp: enc_demo_def)
qed

text \<open>
  Claim C9. Called with a dictionary object of the caller, at address \<open>a\<close>,
  \<^verbatim>\<open>adicionar_transcricao\<close> stores that very address, allocates nothing, and writes
  into that object: the key \<open>id\<close>, and the key \<open>timestamp\<close> when it was absent. Every
  other key of the object keeps its value, and so does every other object.
\<close>

theorem C9_caller_mapping_mutated:
  assumes "a < length h"
    and "adicionar_transcricao agora t (Some a) (h, s) = (ret, h', s')"
  shows "metadados s' = metadados s @ [a] \<and> length h' = length h \<and>
         (h' ! a) ''id'' = Some (PInt (int (length (transcricoes s)))) \<and>
         (h' ! a) ''timestamp'' =
            (case (h ! a) ''timestamp'' of None \<Rightarrow> Some (PStr agora) | Some v \<Rightarrow> Some v) \<and>
         (\<forall>key. key \<noteq> ''id'' \<and> key \<noteq> ''timestamp'' \<longrightarrow> (h' ! a) key = (h ! a) key) \<and>
         (\<forall>b. b \<noteq> a \<longrightarrow> h' ! b = h ! b)"
  using assms by (auto simp: adicionar_transcricao_def Let_def split: if_splits)

theorem C9_caller_mapping_mutated_witness:
  "(0::nat) < length [[''falante'' \<mapsto> PStr ''Cliente A'']] \<and>
   (case adicionar_transcricao ''t0'' ''Bom dia'' (Some 0)
           ([[''falante'' \<mapsto> PStr ''Cliente A'']], audio_init) of
      (ret, h', s') \<Rightarrow>
        metadados s' = [0] \<and> length h' = 1 \<and> (h' ! 0) ''id'' = Some (PInt 0) \<and>
        (h' ! 0) ''timestamp'' = Some (PStr ''t0'') \<and>
        (h' ! 0) ''falante'' = Some (PStr ''Cliente A''))"
proof -
  let ?h = "[[''falante'' \<mapsto> PStr ''Cliente A'']]"
  obtain ret h' s' where
    eq: "adicionar_transcricao ''t0'' ''Bom dia'' (Some 0) (?h, audio_init) = (ret, h', s')"
    by (cases "adicionar_transcricao ''t0'' ''Bom dia'' (Some 0) (?h, audio_init)")
  have len: "(0::nat) < length ?h" by simp
  from C9_caller_mapping_mutated [OF len eq] eq show ?thesis
    by (simp add: audio_init_def)
qed

text \<open>
  Claim C3 says the call returns the assigned identifier. The method has no return
  statement: on the empty store the first call yields \<open>None\<close>, not 0.
\<close>

theorem C3_add_returns_id_counterexample:
  "fst (adicionar_transcricao ''t0'' ''cat'' None ([], audio_init)) \<noteq> PInt 0"
  by (simp add: adicionar_transcricao_def Let_def)

text \<open>
  Claim C3, amended. \<^verbatim>\<open>adicionar_transcricao\<close> appends the text and the metadata
  record; a missing record defaults to a new empty dictionary, which then holds exactly the
  timestamp and the identifier; a timestamp is added when absent and kept when present;
  the identifier stamped under \<open>id\<close> is the number of units stored before the call.
  The call returns nothing (\<open>None\<close>).
\<close>

theorem C3_add_appends_and_stamps:
  assumes "case arg of None \<Rightarrow> True | Some a \<Rightarrow> a < length h"
    and "m = (case arg of None \<Rightarrow> length h | Some a \<Rightarrow> a)"
    and "adicionar_transcricao agora t arg (h, s) = (ret, h', s')"
  shows "ret = PNone \<and>
         transcricoes s' = transcricoes s @ [t] \<and> indice s' = indice s \<and>
         metadados s' = metadados s @ [m] \<and> m < length h' \<and>
         (h' ! m) ''id'' = Some (PInt (int (length (transcricoes s)))) \<and>
         (arg = None \<longrightarrow>
            h' ! m = [''timestamp'' \<mapsto> PStr agora,
                      ''id'' \<mapsto> PInt (int (length (transcricoes s)))]) \<and>
         (arg \<noteq> None \<longrightarrow>
            (h' ! m) ''timestamp'' =
              (case (h ! m) ''timestamp'' of None \<Rightarrow> Some (PStr agora) | Some v \<Rightarrow> Some v))"
proof (cases arg)
  case None
  with assms(2,3) show ?thesis
    by (auto simp: adicionar_transcricao_def Let_def nth_append)
next
  case (Some a)
  with assms show ?thesis
    by (auto simp: adicionar_transcricao_def Let_def split: if_splits)
qed

theorem C3_add_appends_and_stamps_witness:
  "(case adicionar_transcricao ''t1'' ''dog'' None
           (snd (adicionar_transcricao ''t0'' ''cat'' None ([], audio_init))) of
      (ret, h', s') \<Rightarrow>
        ret = PNone \<and> transcricoes s' = [''cat'', ''dog''] \<and> metadados s' = [0, 1] \<and>
        (h' ! 1) ''id'' = Some (PInt 1) \<and> (h' ! 1) ''timestamp'' = Some (PStr ''t1'')) \<and>
   (case adicionar_transcricao ''t0'' ''Bom dia'' (Some 0)
           ([[''timestamp'' \<mapsto> PStr ''ontem'']], audio_init) of
      (ret, h', s') \<Rightarrow>
        ret = PNone \<and> transcricoes s' = [''Bom dia''] \<and> metadados s' = [0] \<and>
        (h' ! 0) ''id'' = Some (PInt 0) \<and> (h' ! 0) ''timestamp'' = Some (PStr ''ontem''))"
proof -
  define hs where "hs = snd (adicionar_transcricao ''t0'' ''cat'' None ([], audio_init))"
  have s: "transcricoes (snd hs) = [''cat'']" "metadados (snd hs) = [0]" "length (fst hs) = 1"
    by (simp_all add: hs_def adicionar_transcricao_def Let_def audio_init_def)
  obtain ret h' s' where
    eq: "adicionar_transcricao ''t1'' ''dog'' None (fst hs, snd hs) = (ret, h', s')"
    by (cases "adicionar_transcricao ''t1'' ''dog'' None (fst hs, snd hs)")
  have ok: "case None :: addr option of None \<Rightarrow> True | Some a \<Rightarrow> a < length (fst hs)" by simp
  have m: "(1 :: addr) = (case None :: addr option of None \<Rightarrow> length (fst hs) | Some a \<Rightarrow> a)"
    using s by simp
  have one: "case adicionar_transcricao ''t1'' ''dog'' None hs of
      (ret, h', s') \<Rightarrow>
        ret = PNone \<and> transcricoes s' = [''cat'', ''dog''] \<and> metadados s' = [0, 1] \<and>
        (h' ! 1) ''id'' = Some (PInt 1) \<and> (h' ! 1) ''timestamp'' = Some (PStr ''t1'')"
    using C3_add_appends_and_stamps [OF ok m eq] s eq by simp
  let ?h = "[[''timestamp'' \<mapsto> PStr ''ontem'']] :: heap"
  obtain ret2 h2 s2 where
    eq2: "adicionar_transcricao ''t0'' ''Bom dia'' (Some 0) (?h, audio_init) = (ret2, h2, s2)"
    by (cases "adicionar_transcricao ''t0'' ''Bom dia'' (Some 0) (?h, audio_init)")
  have ok2: "case Some (0 :: addr) of None \<Rightarrow> True | Some a \<Rightarrow> a < length ?h" by simp
  have m2: "(0 :: addr) = (case Some (0 :: addr) of None \<Rightarrow> length ?h | Some a \<Rightarrow> a)" by simp
  have two: "case adicionar_transcricao ''t0'' ''Bom dia'' (Some 0) (?h, audio_init) of
      (ret, h', s') \<Rightarrow>
        ret = PNone \<and> transcricoes s' = [''Bom dia''] \<and> metadados s' = [0] \<and>
        (h' ! 0) ''id'' = Some (PInt 0) \<and> (h' ! 0) ''timestamp'' = Some (PStr ''ontem'')"
    using C3_add_appends_and_stamps [OF ok2 m2 eq2] eq2 by (simp add: audio_init_def)
  from one two show ?thesis unfolding hs_def by blast
qed

lemma re_split_subset: "p \<in> set (re_split s) \<Longrightarrow> set p \<subseteq> set s"
proof (induction s rule: re_split.induct)
  case (1 s)
  show ?case
  proof (cases "dropWhile (\<lambda>c. \<not> is_delim c) s")
    case Nil
    with "1.prems" show ?thesis by (simp add: re_split.simps [of s])
  next
    case (Cons d r)
    have sub: "set r \<subseteq> set s"
      using set_dropWhileD [of _ "\<lambda>c. \<not> is_delim c" s] Cons by auto
    from Cons "1.prems" have
      "p = takeWhile (\<lambda>c. \<not> is_delim c) s \<or> p \<in> set (re_split (dropWhile is_delim r))"
      by (simp add: re_split.simps [of s])
    then show ?thesis
    proof
      assume "p = takeWhile (\<lambda>c. \<not> is_delim c) s"
      then show ?thesis by (auto dest: set_takeWhileD)
    next
      assume "p \<in> set (re_split (dropWhile is_delim r))"
      from "1.IH" [OF Cons this] have "set p \<subseteq> set (dropWhile is_delim r)" .
      also have "\<dots> \<subseteq> set r" by (auto dest: set_dropWhileD)
      finally show ?thesis using sub by blast
    qed
  qed
qed

lemma strip_all_space: "\<forall>c \<in> set p. is_space c \<Longrightarrow> strip p = []"
proof -
  assume "\<forall>c \<in> set p. is_space c"
  then have "\<forall>c \<in> set (rev p). is_space c" by simp
  then have e: "dropWhile is_space (rev p) = []" by (simp only: dropWhile_eq_Nil_conv)
  show ?thesis unfolding strip_def e by simp
qed

lemma chunk_loop_skip: "\<forall>p \<in> set ps. strip p = [] \<Longrightarrow> chunk_loop T ps acc b = (acc, b)"
  by (induction ps) simp_all

lemma dividir_blank:
  assumes "\<forall>c \<in> set texto. is_space c \<or> is_delim c"
  shows "dividir_em_chunks texto T = []"
proof -
  have "\<forall>p \<in> set (re_split texto). strip p = []"
  proof
    fix p assume p: "p \<in> set (re_split texto)"
    from re_split_subset [OF p] re_split_pieces [OF p] assms
    have "\<forall>c \<in> set p. is_space c" by blast
    then show "strip p = []" by (rule strip_all_space)
  qed
  then show ?thesis by (simp add: dividir_em_chunks_def chunk_loop_skip)
qed

lemma adicionar_documento_no_chunks:
  assumes "dividir_em_chunks texto 500 = []"
  shows "adicionar_documento texto titulo arg r =
         r\<lparr>documentos := documentos r @
             [\<lparr>doc_id = int (length (documentos r)), doc_titulo = titulo, doc_texto = texto,
               doc_metadados = (case arg of None \<Rightarrow> Map.empty | Some m \<Rightarrow> m)\<rparr>]\<rparr>"
  using assms by (simp add: adicionar_documento_def Let_def)

lemma adicionar_documento_documentos:
  "documentos (adicionar_documento texto titulo arg r) =
     documentos r @
       [\<lparr>doc_id = int (length (documentos r)), doc_titulo = titulo, doc_texto = texto,
         doc_metadados = (case arg of None \<Rightarrow> Map.empty | Some m \<Rightarrow> m)\<rparr>]"
  by (simp add: adicionar_documento_def Let_def adicionar_chunks_frame)

lemma adicionar_documentos_ids:
  "map doc_id (documentos (adicionar_documentos docs r)) =
     map doc_id (documentos r) @
     map int [length (documentos r) ..< length (documentos r) + length docs]"
  unfolding adicionar_documentos_def
proof (induction docs arbitrary: r)
  case Nil
  show ?case by simp
next
  case (Cons op docs)
  obtain texto titulo arg where op: "op = (texto, titulo, arg)" by (cases op)
  have d: "documentos (aplicar_doc op r) =
           documentos r @ [\<lparr>doc_id = int (length (documentos r)), doc_titulo = titulo,
             doc_texto = texto, doc_metadados = (case arg of None \<Rightarrow> Map.empty | Some m \<Rightarrow> m)\<rparr>]"
    by (simp add: op aplicar_doc_def adicionar_documento_documentos)
  define n where "n = length (documentos r)"
  have "[n ..< n + Suc (length docs)] = n # [Suc n ..< n + Suc (length docs)]"
    by (rule upt_conv_Cons) simp
  then have u: "[n ..< n + length (op # docs)] = n # [Suc n ..< Suc n + length docs]"
    by simp
  from Cons [of "aplicar_doc op r"] d show ?case
    unfolding n_def [symmetric] u by (simp add: n_def)
qed

lemma adicionar_documentos_no_chunks:
  "\<forall>op \<in> set docs. dividir_em_chunks (fst op) 500 = [] \<Longrightarrow>
   chunks (adicionar_documentos docs r) = chunks r \<and>
   rag_metadados (adicionar_documentos docs r) = rag_metadados r"
  unfolding adicionar_documentos_def
proof (induction docs arbitrary: r)
  case Nil
  show ?case by simp
next
  case (Cons op docs)
  obtain texto titulo arg where op: "op = (texto, titulo, arg)" by (cases op)
  with Cons.prems have z: "dividir_em_chunks texto 500 = []" by simp
  have "chunks (aplicar_doc op r) = chunks r" "rag_metadados (aplicar_doc op r) = rag_metadados r"
    by (simp_all add: op aplicar_doc_def adicionar_documento_no_chunks [OF z])
  with Cons.IH [of "aplicar_doc op r"] Cons.prems show ?case by simp
qed

text \<open>
  Claim C10. When the text of a document yields no chunk, \<^verbatim>\<open>adicionar_documento\<close>
  still appends the document record, with the next \<open>doc_id\<close>, and leaves the chunk and
  metadata lists as they were. A text made of blanks and sentence terminators only (the
  empty text included) yields no chunk. After any run of such documents on the initial
  system the documents are numbered 0, 1, ... and a build fails with \<open>EmptyCorpus\<close>.
\<close>

theorem C10_document_without_chunks:
  "(dividir_em_chunks texto 500 = [] \<longrightarrow>
      documentos (adicionar_documento texto titulo arg r) =
        documentos r @
          [\<lparr>doc_id = int (length (documentos r)), doc_titulo = titulo, doc_texto = texto,
            doc_metadados = (case arg of None \<Rightarrow> Map.empty | Some m \<Rightarrow> m)\<rparr>] \<and>
      chunks (adicionar_documento texto titulo arg r) = chunks r \<and>
      rag_metadados (adicionar_documento texto titulo arg r) = rag_metadados r) \<and>
   ((\<forall>c \<in> set texto. is_space c \<or> is_delim c) \<longrightarrow> dividir_em_chunks texto 500 = []) \<and>
   ((\<forall>op \<in> set docs. dividir_em_chunks (fst op) 500 = []) \<longrightarrow>
      map doc_id (documentos (adicionar_documentos docs rag_init)) = map int [0 ..< length docs] \<and>
      chunks (adicionar_documentos docs rag_init) = [] \<and>
      rag_metadados (adicionar_documentos docs rag_init) = [] \<and>
      rag_criar_indice encode (adicionar_documentos docs rag_init) = Inl EmptyCorpus)"
proof -
  have "map doc_id (documentos (adicionar_documentos docs rag_init)) = map int [0 ..< length docs]"
    using adicionar_documentos_ids [of docs rag_init] by (simp add: rag_init_def)
  moreover have "\<forall>op \<in> set docs. dividir_em_chunks (fst op) 500 = [] \<Longrightarrow>
      chunks (adicionar_documentos docs rag_init) = [] \<and>
      rag_metadados (adicionar_documentos docs rag_init) = []"
    using adicionar_documentos_no_chunks [of docs rag_init] by (simp add: rag_init_def)
  ultimately show ?thesis
    using dividir_blank [of texto 500]
    by (simp add: adicionar_documento_no_chunks rag_criar_indice_def)
qed

theorem C10_document_without_chunks_witness:
  "dividir_em_chunks '''' 500 = [] \<and> dividir_em_chunks ''  '' 500 = [] \<and>
   dividir_em_chunks ''...!?'' 500 = [] \<and>
   map doc_id (documentos (adicionar_documentos
      [('''', ''a'', None), (''  '', ''b'', None), (''...!?'', ''c'', None)] rag_init)) = [0, 1, 2] \<and>
   chunks (adicionar_documentos
      [('''', ''a'', None), (''  '', ''b'', None), (''...!?'', ''c'', None)] rag_init) = [] \<and>
   rag_criar_indice enc_demo (adicionar_documentos
      [('''', ''a'', None), (''  '', ''b'', None), (''...!?'', ''c'', None)] rag_init)
     = Inl EmptyCorpus \<and>
   documentos (adicionar_documento ''  '' ''b'' None rag_init) =
     [\<lparr>doc_id = 0, doc_titulo = ''b'', doc_texto = ''  '', doc_metadados = Map.empty\<rparr>]"
proof -
  let ?docs = "[('''', ''a'', None), (''  '', ''b'', None), (''...!?'', ''c'', None)] :: doc_op list"
  have e: "\<forall>c \<in> set ''''. is_space c \<or> is_delim c" by simp
  have b: "\<forall>c \<in> set ''  ''. is_space c \<or> is_delim c" by simp
  have p: "\<forall>c \<in> set ''...!?''. is_space c \<or> is_delim c" by (simp add: is_delim_def)
  have z: "dividir_em_chunks '''' 500 = []" "dividir_em_chunks ''  '' 500 = []"
    "dividir_em_chunks ''...!?'' 500 = []"
    using C10_document_without_chunks [of "''''" "''a''" None rag_init "[]" enc_demo] e
      C10_document_without_chunks [of "''  ''" "''b''" None rag_init "[]" enc_demo] b
      C10_document_without_chunks [of "''...!?''" "''c''" None rag_init "[]" enc_demo] p
    by blast+
  then have all: "\<forall>op \<in> set ?docs. dividir_em_chunks (fst op) 500 = []" by simp
  have u: "[0 ..< length ?docs] = [0, 1, 2]" by (simp add: upt_rec)
  from C10_document_without_chunks [of "''  ''" "''b''" None rag_init ?docs enc_demo] z all u
  show ?thesis by (simp add: rag_init_def)
qed

section \<open>Identifiers in the metadata records, and the search\<close>

lemma aplicar_add_lengths:
  "length (transcricoes (snd (aplicar_add op hs))) = Suc (length (transcricoes (snd hs))) \<and>
   length (metadados (snd (aplicar_add op hs))) = Suc (length (metadados (snd hs)))"
  by (cases op; cases hs; cases "snd (snd op)")
     (simp_all add: aplicar_add_def adicionar_transcricao_def Let_def)

lemma adicionar_transcricoes_lengths:
  "length (transcricoes (snd hs)) = length (metadados (snd hs)) \<Longrightarrow>
   length (transcricoes (snd (adicionar_transcricoes ops hs))) =
   length (metadados (snd (adicionar_transcricoes ops hs)))"
  unfolding adicionar_transcricoes_def
  by (induction ops arbitrary: hs) (simp_all add: aplicar_add_lengths)

lemma aplicar_add_ids_ok:
  assumes ok: "ids_ok hs"
    and len: "length (transcricoes (snd hs)) = length (metadados (snd hs))"
    and fresh: "case snd (snd op) of None \<Rightarrow> True
                | Some a \<Rightarrow> a < length (fst hs) \<and> a \<notin> set (metadados (snd hs))"
  shows "ids_ok (aplicar_add op hs)"
proof -
  obtain h s where hs: "hs = (h, s)" by (cases hs)
  obtain agora t arg where op: "op = (agora, t, arg)" by (cases op)
  from ok hs have d: "distinct (metadados s)"
    and old: "\<And>i. i < length (metadados s) \<Longrightarrow>
                metadados s ! i < length h \<and> (h ! (metadados s ! i)) ''id'' = Some (PInt (int i))"
    by (simp_all add: ids_ok_def)
  from len hs have len': "length (transcricoes s) = length (metadados s)" by simp
  have bound: "\<And>x. x \<in> set (metadados s) \<Longrightarrow> x < length h"
    using old by (auto simp: in_set_conv_nth)
  show ?thesis
  proof (cases arg)
    case None
    have notin: "length h \<notin> set (metadados s)" using bound by auto
    have neq: "\<And>i. i < length (metadados s) \<Longrightarrow> length h \<noteq> metadados s ! i"
      using old by fastforce
    show ?thesis
      using d notin len'
      by (auto simp: ids_ok_def hs op None aplicar_add_def adicionar_transcricao_def Let_def
          nth_append less_Suc_eq old neq)
  next
    case (Some a)
    with fresh hs op have a: "a < length h" "a \<notin> set (metadados s)" by simp_all
    have neq: "\<And>i. i < length (metadados s) \<Longrightarrow> a \<noteq> metadados s ! i"
      using a(2) by (auto simp: in_set_conv_nth)
    show ?thesis
      using d a len'
      by (auto simp: ids_ok_def hs op Some aplicar_add_def adicionar_transcricao_def Let_def
          nth_append less_Suc_eq old neq)
  qed
qed

lemma adicionar_transcricoes_ids_ok:
  "args_frescos ops hs \<Longrightarrow> ids_ok hs \<Longrightarrow>
   length (transcricoes (snd hs)) = length (metadados (snd hs)) \<Longrightarrow>
   ids_ok (adicionar_transcricoes ops hs)"
  unfolding adicionar_transcricoes_def
proof (induction ops arbitrary: hs)
  case Nil
  then show ?case by simp
next
  case (Cons op ops)
  from Cons.prems(1) have
    fresh: "case snd (snd op) of None \<Rightarrow> True
            | Some a \<Rightarrow> a < length (fst hs) \<and> a \<notin> set (metadados (snd hs))"
    and rest: "args_frescos ops (aplicar_add op hs)" by simp_all
  have "ids_ok (aplicar_add op hs)"
    using aplicar_add_ids_ok [OF Cons.prems(2,3) fresh] .
  moreover have "length (transcricoes (snd (aplicar_add op hs))) =
                 length (metadados (snd (aplicar_add op hs)))"
    using Cons.prems(3) by (simp add: aplicar_add_lengths)
  ultimately show ?case using Cons.IH [OF rest] by simp
qed

lemma adicionar_chunks_lists:
  "chunks (adicionar_chunks d titulo md ics r) = chunks r @ map snd ics \<and>
   rag_metadados (adicionar_chunks d titulo md ics r) =
     rag_metadados r @ map (\<lambda>ic. chunk_metadados d (fst ic) titulo md) ics"
  by (induction d titulo md ics r rule: adicionar_chunks.induct) simp_all

lemma aplicar_doc_ids_from:
  assumes "rag_ids_from D r" "op \<in> D"
  shows "rag_ids_from D (aplicar_doc op r)"
proof -
  obtain texto titulo arg where op: "op = (texto, titulo, arg)" by (cases op)
  have look: "\<And>d i.
      chunk_metadados d i titulo (case arg of None \<Rightarrow> Map.empty | Some m \<Rightarrow> m) ''id''
        = arg_lookup op ''id''"
    by (cases arg) (simp_all add: op arg_lookup_def chunk_metadados_def map_add_def split: option.splits)
  from assms show ?thesis
    by (auto simp: rag_ids_from_def op aplicar_doc_def adicionar_documento_def Let_def
        adicionar_chunks_lists look)
qed

lemma adicionar_documentos_ids_from:
  "rag_ids_from D r \<Longrightarrow> set docs \<subseteq> D \<Longrightarrow> rag_ids_from D (adicionar_documentos docs r)"
  unfolding adicionar_documentos_def
  by (induction docs arbitrary: r) (simp_all add: aplicar_doc_ids_from)

lemma aplicar_doc_lists:
  "documentos (aplicar_doc op r) \<noteq> [] \<and>
   length (documentos (aplicar_doc op r)) = Suc (length (documentos r)) \<and>
   chunks (aplicar_doc op r) = chunks r @ dividir_em_chunks (fst op) 500 \<and>
   rag_metadados (aplicar_doc op r) =
     rag_metadados r @ registros_documento (length (documentos r)) op"
  by (cases op)
     (simp add: aplicar_doc_def adicionar_documento_def Let_def adicionar_chunks_lists
        adicionar_chunks_frame registros_documento_def)

lemma adicionar_documentos_lists:
  "chunks (adicionar_documentos docs r) =
     chunks r @ concat (map (\<lambda>op. dividir_em_chunks (fst op) 500) docs) \<and>
   rag_metadados (adicionar_documentos docs r) =
     rag_metadados r @
     concat (map (\<lambda>dop. registros_documento (fst dop) (snd dop))
               (enumerate (length (documentos r)) docs))"
  unfolding adicionar_documentos_def
proof (induction docs arbitrary: r)
  case Nil
  show ?case by simp
next
  case (Cons op docs)
  from Cons [of "aplicar_doc op r"] aplicar_doc_lists [of op r] show ?case by simp
qed

lemma chunk_metadados_keys:
  "chunk_metadados d i titulo md ''id'' = md ''id'' \<and>
   chunk_metadados d i titulo md ''doc_id'' =
     (case md ''doc_id'' of None \<Rightarrow> Some (PInt d) | Some v \<Rightarrow> Some v) \<and>
   chunk_metadados d i titulo md ''chunk_id'' =
     (case md ''chunk_id'' of None \<Rightarrow> Some (PInt (int i)) | Some v \<Rightarrow> Some v) \<and>
   chunk_metadados d i titulo md ''titulo'' =
     (case md ''titulo'' of None \<Rightarrow> Some (PStr titulo) | Some v \<Rightarrow> Some v)"
  by (simp add: chunk_metadados_def map_add_def split: option.splits)

text \<open>
  Claim C2 says every metadata record has its position under the key \<open>id\<close>. The chunk
  records of \<^verbatim>\<open>adicionar_documento\<close> have no such key: after one document with
  one chunk, the record at position 0 has nothing under \<open>id\<close>.
\<close>

theorem C2_rag_record_without_id_counterexample:
  "length (rag_metadados (adicionar_documento ''A.'' ''T'' None rag_init)) = 1 \<and>
   (rag_metadados (adicionar_documento ''A.'' ''T'' None rag_init) ! 0) ''id'' \<noteq> Some (PInt 0)"
proof -
  have "dividir_em_chunks ''A.'' 500 = [''A.'']" by code_simp
  then show ?thesis
    by (simp add: adicionar_documento_def Let_def rag_init_def enumerate_eq_zip
        chunk_metadados_def map_add_def)
qed

text \<open>
  Claim C2, amended. After every run of additions on an initially empty store the list of
  units and the list of metadata records are equally long. For
  \<^verbatim>\<open>adicionar_transcricao\<close> the record at position \<open>i\<close> has \<open>id = i\<close>, provided
  every dictionary passed to a call is an existing object that the store does not hold
  yet at the time of the call (so none is passed twice, and no record of the store is
  passed back to it). For \<^verbatim>\<open>adicionar_documento\<close> the chunks are those of the
  documents in order, and the records are, document by document and chunk by chunk, the
  dictionary \<^verbatim>\<open>{'doc_id': d, 'chunk_id': c, 'titulo': titulo, **metadados}\<close>: it
  has \<open>doc_id = d\<close> and \<open>chunk_id = c\<close> unless the caller's metadata has these keys,
  and under \<open>id\<close> it has exactly what the caller's metadata has there (nothing, when the
  caller gave none).
\<close>

theorem C2_parallel_lists_and_ids:
  "length (transcricoes (snd (adicionar_transcricoes ops (h, audio_init)))) =
     length (metadados (snd (adicionar_transcricoes ops (h, audio_init)))) \<and>
   (args_frescos ops (h, audio_init) \<longrightarrow>
      (\<forall>i < length (metadados (snd (adicionar_transcricoes ops (h, audio_init)))).
         (fst (adicionar_transcricoes ops (h, audio_init))
            ! (metadados (snd (adicionar_transcricoes ops (h, audio_init))) ! i)) ''id''
         = Some (PInt (int i)))) \<and>
   length (chunks (adicionar_documentos docs rag_init)) =
     length (rag_metadados (adicionar_documentos docs rag_init)) \<and>
   (\<forall>i < length (rag_metadados (adicionar_documentos docs rag_init)).
      \<exists>op \<in> set docs.
        (rag_metadados (adicionar_documentos docs rag_init) ! i) ''id'' = arg_lookup op ''id'') \<and>
   chunks (adicionar_documentos docs rag_init) =
     concat (map (\<lambda>op. dividir_em_chunks (fst op) 500) docs) \<and>
   rag_metadados (adicionar_documentos docs rag_init) =
     concat (map (\<lambda>dop. registros_documento (fst dop) (snd dop)) (enumerate 0 docs)) \<and>
   chunk_metadados d c titulo md ''id'' = md ''id'' \<and>
   chunk_metadados d c titulo md ''doc_id'' =
     (case md ''doc_id'' of None \<Rightarrow> Some (PInt d) | Some v \<Rightarrow> Some v) \<and>
   chunk_metadados d c titulo md ''chunk_id'' =
     (case md ''chunk_id'' of None \<Rightarrow> Some (PInt (int c)) | Some v \<Rightarrow> Some v)"
proof -
  let ?hs = "adicionar_transcricoes ops (h, audio_init)"
  let ?r = "adicionar_documentos docs rag_init"
  have l0: "length (transcricoes (snd (h, audio_init))) = length (metadados (snd (h, audio_init)))"
    by (simp add: audio_init_def)
  have i0: "ids_ok (h, audio_init)" by (simp add: ids_ok_def audio_init_def)
  have a: "length (transcricoes (snd ?hs)) = length (metadados (snd ?hs))"
    using adicionar_transcricoes_lengths [OF l0] .
  have b: "args_frescos ops (h, audio_init) \<Longrightarrow>
           \<forall>i < length (metadados (snd ?hs)).
             (fst ?hs ! (metadados (snd ?hs) ! i)) ''id'' = Some (PInt (int i))"
  proof -
    assume "args_frescos ops (h, audio_init)"
    from adicionar_transcricoes_ids_ok [OF this i0 l0] show ?thesis
      by (cases ?hs) (simp add: ids_ok_def)
  qed
  have "rag_ids_from (set docs) rag_init" by (simp add: rag_ids_from_def rag_init_def)
  then have r: "rag_ids_from (set docs) ?r"
    by (rule adicionar_documentos_ids_from) simp
  have l: "chunks ?r = concat (map (\<lambda>op. dividir_em_chunks (fst op) 500) docs)"
    "rag_metadados ?r =
       concat (map (\<lambda>dop. registros_documento (fst dop) (snd dop)) (enumerate 0 docs))"
    using adicionar_documentos_lists [of docs rag_init] by (simp_all add: rag_init_def)
  have old: "length (transcricoes (snd ?hs)) = length (metadados (snd ?hs)) \<and>
     (args_frescos ops (h, audio_init) \<longrightarrow>
        (\<forall>i < length (metadados (snd ?hs)).
           (fst ?hs ! (metadados (snd ?hs) ! i)) ''id'' = Some (PInt (int i)))) \<and>
     length (chunks ?r) = length (rag_metadados ?r) \<and>
     (\<forall>i < length (rag_metadados ?r).
        \<exists>op \<in> set docs. (rag_metadados ?r ! i) ''id'' = arg_lookup op ''id'')"
    using a b r by (auto simp: rag_ids_from_def)
  from old l chunk_metadados_keys [of d c titulo md] show ?thesis by blast
qed

lemma audio_demo_state:
  "transcricoes (snd audio_demo) = [''cat'', ''dog'', ''car''] \<and>
   metadados (snd audio_demo) = [0, 1, 2] \<and> indice (snd audio_demo) = None \<and>
   length (fst audio_demo) = 3"
  by (simp add: audio_demo_def adicionar_transcricoes_def aplicar_add_def
      adicionar_transcricao_def audio_init_def)

lemma dividir_demo:
  "dividir_em_chunks ''cat'' 500 = [''cat.'']" "dividir_em_chunks ''dog'' 500 = [''dog.'']"
  "dividir_em_chunks ''car'' 500 = [''car.'']"
  by code_simp+

lemma rag_demo_state:
  "chunks rag_demo = [''cat.'', ''dog.'', ''car.''] \<and>
   rag_metadados rag_demo =
     [chunk_metadados 0 0 ''a'' Map.empty, chunk_metadados 1 0 ''b'' Map.empty,
      chunk_metadados 2 0 ''c'' Map.empty] \<and>
   rag_indice rag_demo = None"
  by (simp add: rag_demo_def adicionar_documentos_def aplicar_doc_def
      adicionar_documento_def rag_init_def dividir_demo enumerate_eq_zip Let_def)

lemma demo_built:
  "criar_indice enc_demo (snd audio_demo) = Inr audio_pronto \<and>
   rag_criar_indice enc_demo rag_demo = Inr rag_pronto"
  by (simp add: criar_indice_def rag_criar_indice_def audio_pronto_def rag_pronto_def
      audio_demo_state rag_demo_state enc_demo_def)

lemma audio_misto_state:
  "transcricoes (snd audio_misto) = [''cat'', ''dog''] \<and> metadados (snd audio_misto) = [0, 1]"
  by (simp add: audio_misto_def adicionar_transcricoes_def aplicar_add_def
      adicionar_transcricao_def audio_init_def)

theorem C2_parallel_lists_and_ids_witness:
  "args_frescos [(''t0'', ''cat'', Some 0), (''t1'', ''dog'', None)]
     ([[''falante'' \<mapsto> PStr ''Cliente A'']], audio_init) \<and>
   length (transcricoes (snd audio_misto)) = 2 \<and> metadados (snd audio_misto) = [0, 1] \<and>
   (fst audio_misto ! 0) ''id'' = Some (PInt 0) \<and> (fst audio_misto ! 1) ''id'' = Some (PInt 1) \<and>
   length (chunks rag_demo) = 3 \<and> length (rag_metadados rag_demo) = 3 \<and>
   (rag_metadados rag_demo ! 0) ''id'' = None \<and> (rag_metadados rag_demo ! 1) ''id'' = None \<and>
   (rag_metadados rag_demo ! 2) ''id'' = None \<and>
   chunks rag_demo = [''cat.'', ''dog.'', ''car.''] \<and>
   rag_metadados rag_demo =
     [chunk_metadados 0 0 ''a'' Map.empty, chunk_metadados 1 0 ''b'' Map.empty,
      chunk_metadados 2 0 ''c'' Map.empty] \<and>
   (rag_metadados rag_demo ! 1) ''doc_id'' = Some (PInt 1) \<and>
   (rag_metadados rag_demo ! 1) ''chunk_id'' = Some (PInt 0)"
proof -
  let ?ops = "[(''t0'', ''cat'', Some 0), (''t1'', ''dog'', None)] :: add_op list"
  let ?h = "[[''falante'' \<mapsto> PStr ''Cliente A'']] :: heap"
  let ?docs = "[(''cat'', ''a'', None), (''dog'', ''b'', None), (''car'', ''c'', None)] :: doc_op list"
  have f: "args_frescos ?ops (?h, audio_init)"
    by (simp add: audio_init_def aplicar_add_def adicionar_transcricao_def)
  have n: "\<forall>op \<in> set ?docs. arg_lookup op ''id'' = None" by (simp add: arg_lookup_def)
  note c = C2_parallel_lists_and_ids [where ops = ?ops and h = ?h and docs = ?docs and d = 1 and c = 0
      and titulo = "''b''" and md = Map.empty, folded audio_misto_def rag_demo_def]
  from c f have ids: "\<forall>i < length (metadados (snd audio_misto)).
      (fst audio_misto ! (metadados (snd audio_misto) ! i)) ''id'' = Some (PInt (int i))"
    by blast
  from c have rg: "\<forall>i < length (rag_metadados rag_demo).
      \<exists>op \<in> set ?docs. (rag_metadados rag_demo ! i) ''id'' = arg_lookup op ''id''"
    by blast
  from c have cs: "chunks rag_demo = concat (map (\<lambda>op. dividir_em_chunks (fst op) 500) ?docs)"
    and ms: "rag_metadados rag_demo =
       concat (map (\<lambda>dop. registros_documento (fst dop) (snd dop)) (enumerate 0 ?docs))"
    by blast+
  from c have ks: "chunk_metadados 1 0 ''b'' Map.empty ''doc_id'' = Some (PInt 1)"
    "chunk_metadados 1 0 ''b'' Map.empty ''chunk_id'' = Some (PInt 0)"
    by simp_all
  have cs': "chunks rag_demo = [''cat.'', ''dog.'', ''car.'']"
    using cs by (simp add: dividir_demo)
  have ms': "rag_metadados rag_demo =
     [chunk_metadados 0 0 ''a'' Map.empty, chunk_metadados 1 0 ''b'' Map.empty,
      chunk_metadados 2 0 ''c'' Map.empty]"
    using ms by (simp add: registros_documento_def dividir_demo enumerate_eq_zip upt_rec)
  have m: "metadados (snd audio_misto) = [0, 1]" using audio_misto_state by simp
  have l: "length (rag_metadados rag_demo) = 3" using ms' by simp
  from ids m have "(fst audio_misto ! 0) ''id'' = Some (PInt 0)"
    "(fst audio_misto ! 1) ''id'' = Some (PInt 1)"
    by force+
  moreover from rg n l have "\<forall>i < 3. (rag_metadados rag_demo ! i) ''id'' = None"
    by metis
  then have "(rag_metadados rag_demo ! 0) ''id'' = None"
    "(rag_metadados rag_demo ! 1) ''id'' = None" "(rag_metadados rag_demo ! 2) ''id'' = None"
    by simp_all
  moreover have "(rag_metadados rag_demo ! 1) ''doc_id'' = Some (PInt 1)"
    "(rag_metadados rag_demo ! 1) ''chunk_id'' = Some (PInt 0)"
    using ks by (simp_all add: ms')
  ultimately show ?thesis using f m l audio_misto_state cs' ms' by simp
qed

text \<open>
  Why the proviso on \<^verbatim>\<open>adicionar_transcricao\<close>: an object the store already holds,
  whether the caller passed it before or the store allocated it and the caller read it
  back from \<^verbatim>\<open>metadados\<close>, is stored twice and stamped twice, and the second stamp
  is what both positions show.
\<close>

lemma same_object_twice:
  "(case adicionar_transcricoes [(''t0'', ''cat'', Some 0), (''t1'', ''dog'', Some 0)]
           ([Map.empty], audio_init) of
      (h, s) \<Rightarrow> metadados s = [0, 0] \<and> (h ! (metadados s ! 0)) ''id'' = Some (PInt 1))"
  by (simp add: adicionar_transcricoes_def aplicar_add_def adicionar_transcricao_def audio_init_def)

lemma stored_record_passed_back:
  "args_frescos [(''t0'', ''cat'', None), (''t1'', ''dog'', Some 0)] ([], audio_init) = False \<and>
   (case adicionar_transcricoes [(''t0'', ''cat'', None), (''t1'', ''dog'', Some 0)]
           ([], audio_init) of
      (h, s) \<Rightarrow> metadados s = [0, 0] \<and> (h ! (metadados s ! 0)) ''id'' = Some (PInt 1))"
  by (simp add: adicionar_transcricoes_def aplicar_add_def adicionar_transcricao_def audio_init_def)

text \<open>
  Claim C4 says a search with \<open>k \<le> 0\<close> fails with \<open>InvalidArgument\<close>. Neither search
  method looks at \<open>k\<close>; with \<open>k = 0\<close> on the built systems the call ends in the
  assertion of the index library, which is not an \<open>InvalidArgument\<close> of the pipeline.
\<close>

theorem C4_nonpositive_k_counterexample:
  "criar_indice enc_demo (snd audio_demo) = Inr audio_pronto \<and>
   buscar_transcricoes enc_demo audio_pronto ''cat'' 0 = Inl AssertionError \<and>
   buscar_transcricoes enc_demo audio_pronto ''cat'' 0 \<noteq> Inl InvalidArgument \<and>
   rag_criar_indice enc_demo rag_demo = Inr rag_pronto \<and>
   recuperar_contexto enc_demo rag_pronto ''cat'' 0 = Inl AssertionError \<and>
   recuperar_contexto enc_demo rag_pronto ''cat'' 0 \<noteq> Inl InvalidArgument"
  using demo_built
  by (simp add: buscar_transcricoes_def recuperar_contexto_def faiss_search_def
      audio_pronto_def rag_pronto_def)

text \<open>
  Claim C4, amended. On a built index a search with \<open>k \<le> 0\<close> does fail, but by the
  vector index's own check of \<open>k\<close> (an \<open>AssertionError\<close> raised inside the library):
  the search methods hand \<open>k\<close> on unchecked and raise no error of their own for it.
\<close>

theorem C4_nonpositive_k_rejected_by_index:
  assumes "k \<le> 0"
  shows "(indice s = Some rows \<longrightarrow>
            buscar_transcricoes encode s consulta k = Inl AssertionError) \<and>
         (rag_indice r = Some rows' \<longrightarrow>
            recuperar_contexto encode r pergunta k = Inl AssertionError)"
  using assms by (simp add: buscar_transcricoes_def recuperar_contexto_def faiss_search_def)

theorem C4_nonpositive_k_rejected_by_index_witness:
  "(- 2 :: int) \<le> 0 \<and> indice audio_pronto = Some [[0], [1], [3]] \<and>
   buscar_transcricoes enc_demo audio_pronto ''cat'' (- 2) = Inl AssertionError \<and>
   rag_indice rag_pronto = Some [[0], [1], [3]] \<and>
   recuperar_contexto enc_demo rag_pronto ''cat'' (- 2) = Inl AssertionError"
proof -
  have k: "(- 2 :: int) \<le> 0" by simp
  have a: "indice audio_pronto = Some [[0], [1], [3]]" by (simp add: audio_pronto_def)
  have r: "rag_indice rag_pronto = Some [[0], [1], [3]]" by (simp add: rag_pronto_def)
  from C4_nonpositive_k_rejected_by_index [OF k, of audio_pronto "[[0], [1], [3]]" enc_demo
      "''cat''" rag_pronto "[[0], [1], [3]]" "''cat''"] a r
  show ?thesis by simp
qed

text \<open>
  Claim C1 at a corpus of three units and \<open>k = 4\<close>: the claim asks for \<open>min 4 3 = 3\<close>
  results and no padding slot joined against the store. Both search methods return four
  results; the fourth is the padding slot of the index (label \<open>-1\<close>, distance
  \<open>FLT_MAX\<close>), which the subscript \<open>[-1]\<close> joins to the last stored unit.
\<close>

theorem C1_padding_joined_to_last_unit:
  "criar_indice enc_demo (snd audio_demo) = Inr audio_pronto \<and>
   length (transcricoes audio_pronto) = 3 \<and>
   buscar_transcricoes enc_demo audio_pronto ''cat'' 4 =
     Inr [\<lparr>res_posicao = 1, res_transcricao = ''cat'', res_metadados = 0,
            res_distancia = 0, res_similaridade = 1\<rparr>,
          \<lparr>res_posicao = 2, res_transcricao = ''dog'', res_metadados = 1,
            res_distancia = 1, res_similaridade = 1 / 2\<rparr>,
          \<lparr>res_posicao = 3, res_transcricao = ''car'', res_metadados = 2,
            res_distancia = 9, res_similaridade = 1 / 10\<rparr>,
          \<lparr>res_posicao = 4, res_transcricao = ''car'', res_metadados = 2,
            res_distancia = FLT_MAX, res_similaridade = 1 / (1 + FLT_MAX)\<rparr>] \<and>
   rag_criar_indice enc_demo rag_demo = Inr rag_pronto \<and>
   length (chunks rag_pronto) = 3 \<and>
   recuperar_contexto enc_demo rag_pronto ''cat'' 4 =
     Inr [\<lparr>ctx_chunk = ''cat.'', ctx_metadados = chunk_metadados 0 0 ''a'' Map.empty,
            ctx_distancia = 0, ctx_similaridade = 1\<rparr>,
          \<lparr>ctx_chunk = ''dog.'', ctx_metadados = chunk_metadados 1 0 ''b'' Map.empty,
            ctx_distancia = 1, ctx_similaridade = 1 / 2\<rparr>,
          \<lparr>ctx_chunk = ''car.'', ctx_metadados = chunk_metadados 2 0 ''c'' Map.empty,
            ctx_distancia = 9, ctx_similaridade = 1 / 10\<rparr>,
          \<lparr>ctx_chunk = ''car.'', ctx_metadados = chunk_metadados 2 0 ''c'' Map.empty,
            ctx_distancia = FLT_MAX, ctx_similaridade = 1 / (1 + FLT_MAX)\<rparr>]"
proof -
  have f: "faiss_search [[0], [1], [3]] (enc_demo ''cat'') 4 =
           Inr [(0, 0), (1, 1), (9, 2), (FLT_MAX, - 1)]"
    by (simp add: faiss_search_def enc_demo_def l2sq_def Let_def upt_rec)
  have a: "buscar_transcricoes enc_demo audio_pronto ''cat'' 4 =
           montar_resultados audio_pronto 0 [(0, 0), (1, 1), (9, 2), (FLT_MAX, - 1)]"
    by (simp add: buscar_transcricoes_def audio_pronto_def f)
  have r: "recuperar_contexto enc_demo rag_pronto ''cat'' 4 =
           montar_contexto rag_pronto [(0, 0), (1, 1), (9, 2), (FLT_MAX, - 1)]"
    by (simp add: recuperar_contexto_def rag_pronto_def f)
  show ?thesis
    unfolding a r using demo_built
    by (simp add: audio_pronto_def rag_pronto_def audio_demo_state rag_demo_state py_index_def)
qed

text \<open>With \<open>k = 1\<close> the same query returns the unit itself, at distance 0.\<close>

lemma nearest_unit_is_itself:
  "buscar_transcricoes enc_demo audio_pronto ''cat'' 1 =
     Inr [\<lparr>res_posicao = 1, res_transcricao = ''cat'', res_metadados = 0,
            res_distancia = 0, res_similaridade = 1\<rparr>]"
proof -
  have "faiss_search [[0], [1], [3]] (enc_demo ''cat'') 1 = Inr [(0, 0)]"
    by (simp add: faiss_search_def enc_demo_def l2sq_def Let_def upt_rec)
  then show ?thesis
    by (simp add: buscar_transcricoes_def audio_pronto_def audio_demo_state py_index_def)
qed

subsection \<open>The search in general\<close>

text \<open>
  For every \<open>k \<ge> 1\<close> the index fills \<open>k\<close> slots and the search methods return
  \<open>k\<close> results, whatever the number of rows. While \<open>k\<close> does not exceed the number of
  rows the slots are ranked by distance, then row number, every label is a row number, and
  every result carries the text and the record stored at its label.
\<close>

lemma faiss_search_count:
  assumes "0 < k"
  shows "\<exists>hits. faiss_search rows q k = Inr hits \<and> length hits = nat k \<and>
           (\<forall>(d, i) \<in> set hits. - 1 \<le> i \<and> i < int (length rows))"
proof -
  let ?zs = "zip (map (l2sq q) rows) (map int [0..<length rows])"
  let ?top = "take (nat k) (sort ?zs)"
  let ?hits = "?top @ replicate (nat k - length ?top) (FLT_MAX, - 1)"
  have eq: "faiss_search rows q k = Inr ?hits"
    using assms by (simp add: faiss_search_def Let_def)
  have len: "length ?hits = nat k" by simp
  have "set ?top \<subseteq> set ?zs" using set_take_subset [of "nat k" "sort ?zs"] by simp
  moreover have "\<forall>(d, i) \<in> set ?zs. 0 \<le> i \<and> i < int (length rows)"
    by (auto simp: set_zip)
  ultimately have "\<forall>(d, i) \<in> set ?top. - 1 \<le> i \<and> i < int (length rows)" by fastforce
  then have "\<forall>(d, i) \<in> set ?hits. - 1 \<le> i \<and> i < int (length rows)" by auto
  with eq len show ?thesis by blast
qed

lemma faiss_search_in_range:
  assumes "0 < k" "nat k \<le> length rows"
  shows "\<exists>hits. faiss_search rows q k = Inr hits \<and> length hits = nat k \<and> sorted hits \<and>
           (\<forall>(d, i) \<in> set hits. 0 \<le> i \<and> i < int (length rows) \<and> d = l2sq q (rows ! nat i))"
proof -
  let ?zs = "zip (map (l2sq q) rows) (map int [0..<length rows])"
  let ?top = "take (nat k) (sort ?zs)"
  have len: "length ?top = nat k" using assms(2) by simp
  then have eq: "faiss_search rows q k = Inr ?top"
    using assms(1) by (simp add: faiss_search_def Let_def)
  have srt: "sorted ?top" by (simp add: sorted_wrt_take)
  have "set ?top \<subseteq> set ?zs" using set_take_subset [of "nat k" "sort ?zs"] by simp
  moreover have "\<forall>(d, i) \<in> set ?zs. 0 \<le> i \<and> i < int (length rows) \<and> d = l2sq q (rows ! nat i)"
    by (auto simp: set_zip)
  ultimately have "\<forall>(d, i) \<in> set ?top. 0 \<le> i \<and> i < int (length rows) \<and> d = l2sq q (rows ! nat i)"
    by fastforce
  with eq len srt show ?thesis by blast
qed

lemma py_index_in_range: "0 \<le> i \<Longrightarrow> i < int (length xs) \<Longrightarrow> py_index xs i = Inr (xs ! nat i)"
  by (simp add: py_index_def)

lemma py_index_minus_one: "xs \<noteq> [] \<Longrightarrow> py_index xs (- 1) = Inr (last xs)"
  by (cases xs) (simp_all add: py_index_def last_conv_nth nat_diff_distrib')

lemma montar_resultados_in_range:
  assumes "\<forall>(d, i) \<in> set hits. 0 \<le> i \<and> i < int (length (transcricoes s))"
    and "length (transcricoes s) = length (metadados s)"
  shows "\<exists>res. montar_resultados s j hits = Inr res \<and>
           map res_posicao res = map (\<lambda>p. j + 1 + int p) [0..<length hits] \<and>
           map res_transcricao res = map (\<lambda>(d, i). transcricoes s ! nat i) hits \<and>
           map res_metadados res = map (\<lambda>(d, i). metadados s ! nat i) hits \<and>
           map res_distancia res = map fst hits \<and>
           map res_similaridade res = map (\<lambda>(d, i). 1 / (1 + d)) hits"
  using assms(1)
proof (induction hits arbitrary: j)
  case Nil
  show ?case by simp
next
  case (Cons hit hits)
  obtain d i where hit: "hit = (d, i)" by (cases hit)
  with Cons.prems have i: "0 \<le> i" "i < int (length (transcricoes s))" by simp_all
  from Cons.prems have rest: "\<forall>(d, i) \<in> set hits. 0 \<le> i \<and> i < int (length (transcricoes s))"
    by simp
  from Cons.IH [OF rest, of "j + 1"] obtain res where
    res: "montar_resultados s (j + 1) hits = Inr res"
      "map res_posicao res = map (\<lambda>p. j + 1 + 1 + int p) [0..<length hits]"
      "map res_transcricao res = map (\<lambda>(d, i). transcricoes s ! nat i) hits"
      "map res_metadados res = map (\<lambda>(d, i). metadados s ! nat i) hits"
      "map res_distancia res = map fst hits"
      "map res_similaridade res = map (\<lambda>(d, i). 1 / (1 + d)) hits"
    by blast
  have pos: "map (\<lambda>p. j + 1 + int p) [0..<length (hit # hits)] =
             (j + 1) # map (\<lambda>p. j + 1 + 1 + int p) [0..<length hits]"
    by (simp add: upt_conv_Cons map_Suc_upt [symmetric] del: upt_Suc)
  have i': "i < int (length (metadados s))" using i(2) assms(2) by simp
  show ?case
    using res pos
    by (simp add: hit py_index_in_range [OF i] py_index_in_range [OF i(1) i'] del: upt_Suc)
qed

lemma buscar_transcricoes_in_range:
  assumes "indice s = Some rows" "length rows \<le> length (transcricoes s)"
    and "length (transcricoes s) = length (metadados s)"
    and "0 < k" "nat k \<le> length rows"
  shows "\<exists>hits res. buscar_transcricoes encode s consulta k = Inr res \<and>
           length res = nat k \<and> length hits = nat k \<and> sorted hits \<and>
           (\<forall>(d, i) \<in> set hits. 0 \<le> i \<and> i < int (length rows) \<and>
              d = l2sq (encode consulta) (rows ! nat i)) \<and>
           map res_transcricao res = map (\<lambda>(d, i). transcricoes s ! nat i) hits \<and>
           map res_metadados res = map (\<lambda>(d, i). metadados s ! nat i) hits \<and>
           map res_distancia res = map fst hits"
proof -
  from faiss_search_in_range [OF assms(4,5), of "encode consulta"] obtain hits where
    h: "faiss_search rows (encode consulta) k = Inr hits" "length hits = nat k" "sorted hits"
      "\<forall>(d, i) \<in> set hits. 0 \<le> i \<and> i < int (length rows) \<and>
         d = l2sq (encode consulta) (rows ! nat i)"
    by blast
  from h(4) assms(2) have
    "\<forall>(d, i) \<in> set hits. 0 \<le> i \<and> i < int (length (transcricoes s))" by fastforce
  from montar_resultados_in_range [OF this assms(3), of 0] obtain res where
    r: "montar_resultados s 0 hits = Inr res"
      "map res_transcricao res = map (\<lambda>(d, i). transcricoes s ! nat i) hits"
      "map res_metadados res = map (\<lambda>(d, i). metadados s ! nat i) hits"
      "map res_distancia res = map fst hits"
    by blast
  from r(4) have "length res = length hits" by (metis length_map)
  with h r assms(1) show ?thesis
    by (auto simp: buscar_transcricoes_def)
qed


lemma py_index_total:
  "xs \<noteq> [] \<Longrightarrow> - 1 \<le> i \<Longrightarrow> i < int (length xs) \<Longrightarrow> \<exists>x. py_index xs i = Inr x"
  by (cases xs) (auto simp: py_index_def)

lemma montar_resultados_total:
  assumes "\<forall>(d, i) \<in> set hits. - 1 \<le> i \<and> i < int (length (transcricoes s))"
    and "length (transcricoes s) = length (metadados s)" and "transcricoes s \<noteq> []"
  shows "\<exists>res. montar_resultados s j hits = Inr res \<and> length res = length hits"
  using assms(1)
proof (induction hits arbitrary: j)
  case Nil
  show ?case by simp
next
  case (Cons hit hits)
  obtain d i where hit: "hit = (d, i)" by (cases hit)
  with Cons.prems have i: "- 1 \<le> i" "i < int (length (transcricoes s))" by simp_all
  from Cons.prems have "\<forall>(d, i) \<in> set hits. - 1 \<le> i \<and> i < int (length (transcricoes s))"
    by simp
  from Cons.IH [OF this, of "j + 1"] obtain res where
    res: "montar_resultados s (j + 1) hits = Inr res" "length res = length hits" by blast
  from py_index_total [OF assms(3) i] obtain t where t: "py_index (transcricoes s) i = Inr t"
    by blast
  have "metadados s \<noteq> []" "i < int (length (metadados s))" using assms(2,3) i(2) by auto
  from py_index_total [OF this(1) i(1) this(2)] obtain m where
    m: "py_index (metadados s) i = Inr m" by blast
  from res t m show ?case by (simp add: hit)
qed

lemma buscar_transcricoes_count:
  assumes "indice s = Some rows" "length rows \<le> length (transcricoes s)"
    and "length (transcricoes s) = length (metadados s)" and "0 < k"
    and "transcricoes s \<noteq> []"
  shows "\<exists>res. buscar_transcricoes encode s consulta k = Inr res \<and> length res = nat k"
proof -
  from faiss_search_count [OF assms(4), of rows "encode consulta"] obtain hits where
    h: "faiss_search rows (encode consulta) k = Inr hits" "length hits = nat k"
      "\<forall>(d, i) \<in> set hits. - 1 \<le> i \<and> i < int (length rows)"
    by blast
  from h(3) assms(2) have
    "\<forall>(d, i) \<in> set hits. - 1 \<le> i \<and> i < int (length (transcricoes s))" by fastforce
  from montar_resultados_total [OF this assms(3,5), of 0] h assms(1) show ?thesis
    by (auto simp: buscar_transcricoes_def)
qed

lemma montar_contexto_total:
  assumes "\<forall>(d, i) \<in> set hits. - 1 \<le> i \<and> i < int (length (chunks r))"
    and "length (chunks r) = length (rag_metadados r)" and "chunks r \<noteq> []"
  shows "\<exists>res. montar_contexto r hits = Inr res \<and> length res = length hits"
  using assms(1)
proof (induction hits)
  case Nil
  show ?case by simp
next
  case (Cons hit hits)
  obtain d i where hit: "hit = (d, i)" by (cases hit)
  with Cons.prems have i: "- 1 \<le> i" "i < int (length (chunks r))" by simp_all
  from Cons.prems have "\<forall>(d, i) \<in> set hits. - 1 \<le> i \<and> i < int (length (chunks r))"
    by simp
  from Cons.IH [OF this] obtain res where
    res: "montar_contexto r hits = Inr res" "length res = length hits" by blast
  from py_index_total [OF assms(3) i] obtain c where c: "py_index (chunks r) i = Inr c"
    by blast
  have "rag_metadados r \<noteq> []" "i < int (length (rag_metadados r))" using assms(2,3) i(2) by auto
  from py_index_total [OF this(1) i(1) this(2)] obtain m where
    m: "py_index (rag_metadados r) i = Inr m" by blast
  from res c m show ?case by (simp add: hit)
qed

lemma recuperar_contexto_count:
  assumes "rag_indice r = Some rows" "length rows \<le> length (chunks r)"
    and "length (chunks r) = length (rag_metadados r)" and "0 < k"
    and "chunks r \<noteq> []"
  shows "\<exists>res. recuperar_contexto encode r pergunta k = Inr res \<and> length res = nat k"
proof -
  from faiss_search_count [OF assms(4), of rows "encode pergunta"] obtain hits where
    h: "faiss_search rows (encode pergunta) k = Inr hits" "length hits = nat k"
      "\<forall>(d, i) \<in> set hits. - 1 \<le> i \<and> i < int (length rows)"
    by blast
  from h(3) assms(2) have
    "\<forall>(d, i) \<in> set hits. - 1 \<le> i \<and> i < int (length (chunks r))" by fastforce
  from montar_contexto_total [OF this assms(3,5)] h assms(1) show ?thesis
    by (auto simp: recuperar_contexto_def)
qed

lemma montar_contexto_in_range:
  assumes "\<forall>(d, i) \<in> set hits. 0 \<le> i \<and> i < int (length (chunks r))"
    and "length (chunks r) = length (rag_metadados r)"
  shows "\<exists>res. montar_contexto r hits = Inr res \<and>
           map ctx_chunk res = map (\<lambda>(d, i). chunks r ! nat i) hits \<and>
           map ctx_metadados res = map (\<lambda>(d, i). rag_metadados r ! nat i) hits \<and>
           map ctx_distancia res = map fst hits \<and>
           map ctx_similaridade res = map (\<lambda>(d, i). 1 / (1 + d)) hits"
  using assms(1)
proof (induction hits)
  case Nil
  show ?case by simp
next
  case (Cons hit hits)
  obtain d i where hit: "hit = (d, i)" by (cases hit)
  with Cons.prems have i: "0 \<le> i" "i < int (length (chunks r))" by simp_all
  from Cons.prems have rest: "\<forall>(d, i) \<in> set hits. 0 \<le> i \<and> i < int (length (chunks r))"
    by simp
  from Cons.IH [OF rest] obtain res where
    res: "montar_contexto r hits = Inr res"
      "map ctx_chunk res = map (\<lambda>(d, i). chunks r ! nat i) hits"
      "map ctx_metadados res = map (\<lambda>(d, i). rag_metadados r ! nat i) hits"
      "map ctx_distancia res = map fst hits"
      "map ctx_similaridade res = map (\<lambda>(d, i). 1 / (1 + d)) hits"
    by blast
  have i': "i < int (length (rag_metadados r))" using i(2) assms(2) by simp
  show ?case
    using res
    by (simp add: hit py_index_in_range [OF i] py_index_in_range [OF i(1) i'])
qed

lemma recuperar_contexto_in_range:
  assumes "rag_indice r = Some rows" "length rows \<le> length (chunks r)"
    and "length (chunks r) = length (rag_metadados r)"
    and "0 < k" "nat k \<le> length rows"
  shows "\<exists>hits res. recuperar_contexto encode r pergunta k = Inr res \<and>
           length res = nat k \<and> length hits = nat k \<and> sorted hits \<and>
           (\<forall>(d, i) \<in> set hits. 0 \<le> i \<and> i < int (length rows) \<and>
              d = l2sq (encode pergunta) (rows ! nat i)) \<and>
           map ctx_chunk res = map (\<lambda>(d, i). chunks r ! nat i) hits \<and>
           map ctx_metadados res = map (\<lambda>(d, i). rag_metadados r ! nat i) hits \<and>
           map ctx_distancia res = map fst hits"
proof -
  from faiss_search_in_range [OF assms(4,5), of "encode pergunta"] obtain hits where
    h: "faiss_search rows (encode pergunta) k = Inr hits" "length hits = nat k" "sorted hits"
      "\<forall>(d, i) \<in> set hits. 0 \<le> i \<and> i < int (length rows) \<and>
         d = l2sq (encode pergunta) (rows ! nat i)"
    by blast
  from h(4) assms(2) have
    "\<forall>(d, i) \<in> set hits. 0 \<le> i \<and> i < int (length (chunks r))" by fastforce
  from montar_contexto_in_range [OF this assms(3)] obtain res where
    r: "montar_contexto r hits = Inr res"
      "map ctx_chunk res = map (\<lambda>(d, i). chunks r ! nat i) hits"
      "map ctx_metadados res = map (\<lambda>(d, i). rag_metadados r ! nat i) hits"
      "map ctx_distancia res = map fst hits"
    by blast
  from r(4) have "length res = length hits" by (metis length_map)
  with h r assms(1) show ?thesis
    by (auto simp: recuperar_contexto_def)
qed

end
